theory Spec2Isabelle
  imports Complex_Main "HOL-Library.Sublist"
begin

chapter \<open>The model: definitions translated from the source\<close>

section \<open>Domain entities (app/domain/entities)\<close>

text \<open>
  \<open>SummarySource\<close> and the fields of \<open>SummaryResponse\<close> that the services set. The
  \<open>usage\<close> object is flattened into its two counters; \<open>timestamp\<close>, \<open>quality\<close> and
  \<open>metadata\<close> keep their defaults everywhere in the modelled code and are left out.
\<close>

datatype summary_source = LLM | FALLBACK_TEXTRANK | FALLBACK_TFIDF | CACHE

record summary_response =
  resp_summary :: string
  resp_prompt_tokens :: int
  resp_completion_tokens :: int
  resp_model :: string
  resp_latency_ms :: real
  resp_source :: summary_source
  resp_request_id :: "string option"
  resp_cache_hit :: bool

text \<open>An example response.\<close>

definition sample_response :: summary_response where
  "sample_response =
     \<lparr> resp_summary = ''A short summary.'', resp_prompt_tokens = 40,
       resp_completion_tokens = 4, resp_model = ''textrank'', resp_latency_ms = 12,
       resp_source = FALLBACK_TEXTRANK, resp_request_id = None, resp_cache_hit = False \<rparr>"

text \<open>
  \<open>LanguageCode\<close> and \<open>ToneType\<close> with their string values, and \<open>SummaryRequest\<close>.
  The model configuration \<open>use_enum_values\<close> stores the string value of an enum field;
  \<open>language_value\<close> and \<open>tone_value\<close> give it.
\<close>

datatype language_code =
    AUTO | SPANISH | ENGLISH | FRENCH | GERMAN | ITALIAN | PORTUGUESE
  | RUSSIAN | CHINESE | JAPANESE | KOREAN

datatype tone_type = NEUTRAL | CONCISE | BULLET

record summary_request =
  req_text :: string
  req_lang :: language_code
  req_max_tokens :: int
  req_tone :: tone_type
  req_user_id :: "string option"
  req_request_id :: "string option"
  req_metadata :: "(string \<times> string) list"

fun language_value :: "language_code \<Rightarrow> string" where
  "language_value AUTO = ''auto''"
| "language_value SPANISH = ''es''"
| "language_value ENGLISH = ''en''"
| "language_value FRENCH = ''fr''"
| "language_value GERMAN = ''de''"
| "language_value ITALIAN = ''it''"
| "language_value PORTUGUESE = ''pt''"
| "language_value RUSSIAN = ''ru''"
| "language_value CHINESE = ''zh''"
| "language_value JAPANESE = ''ja''"
| "language_value KOREAN = ''ko''"

fun tone_value :: "tone_type \<Rightarrow> string" where
  "tone_value NEUTRAL = ''neutral''"
| "tone_value CONCISE = ''concise''"
| "tone_value BULLET = ''bullet''"

text \<open>
  \<open>SummaryRequest.get_cache_key\<close>. The dictionary \<open>content\<close> is the list of its items.
  \<open>json.dumps(content, sort_keys=True)\<close> and
  \<open>hashlib.sha256(s.encode()).hexdigest()\<close> are library functions, taken as the
  parameters \<open>json_dumps_sorted\<close> and \<open>sha256_hexdigest\<close>.
\<close>

datatype json_value = JString string | JInt int

definition get_cache_key ::
  "((string \<times> json_value) list \<Rightarrow> string) \<Rightarrow> (string \<Rightarrow> string) \<Rightarrow> summary_request \<Rightarrow> string" where
  "get_cache_key json_dumps_sorted sha256_hexdigest request =
     (let content = [(''text'', JString (req_text request)),
                     (''lang'', JString (language_value (req_lang request))),
                     (''max_tokens'', JInt (req_max_tokens request)),
                     (''tone'', JString (tone_value (req_tone request)))];
          content_str = json_dumps_sorted content
      in ''summary:'' @ take 16 (sha256_hexdigest content_str))"

text \<open>
  Example requests of two requesters with the same content, and toy stand-ins for the two
  library functions.
\<close>

definition request_alice :: summary_request where
  "request_alice =
     \<lparr> req_text = ''The quick brown fox. It jumps over the dog.'', req_lang = ENGLISH,
       req_max_tokens = 100, req_tone = NEUTRAL, req_user_id = Some ''alice'',
       req_request_id = Some ''req-1'', req_metadata = [(''client'', ''web'')] \<rparr>"

definition request_bob :: summary_request where
  "request_bob =
     \<lparr> req_text = ''The quick brown fox. It jumps over the dog.'', req_lang = ENGLISH,
       req_max_tokens = 100, req_tone = NEUTRAL, req_user_id = Some ''bob'',
       req_request_id = Some ''req-2'', req_metadata = [] \<rparr>"

definition toy_dumps :: "(string \<times> json_value) list \<Rightarrow> string" where
  "toy_dumps content =
     concat (map (\<lambda>kv. fst kv @ '':'' @ (case snd kv of JString s \<Rightarrow> s | JInt n \<Rightarrow> ''#'') @ '';'')
               content)"

definition toy_digest :: "string \<Rightarrow> string" where
  "toy_digest s = rev s"

text \<open>A request in Chinese, a language neither fallback service of the repository supports.\<close>

definition request_zh :: summary_request where
  "request_zh = request_alice\<lparr>req_lang := CHINESE\<rparr>"


section \<open>Exceptions (app/core/exceptions.py)\<close>

text \<open>
  The exception classes the orchestration code raises and catches, each carrying its
  message. \<open>OtherError\<close> stands for every exception class outside this hierarchy.
\<close>

datatype exn =
    LLMProviderError string
  | LLMProviderTimeoutError string
  | LLMProviderQuotaError string
  | LLMProviderUnavailableError string
  | FallbackError string
  | CacheError string
  | TextProcessingError string
  | OtherError string

text \<open>\<open>isinstance(e, LLMProviderError)\<close>: the class and its three subclasses.\<close>

fun is_LLMProviderError :: "exn \<Rightarrow> bool" where
  "is_LLMProviderError (LLMProviderError _) = True"
| "is_LLMProviderError (LLMProviderTimeoutError _) = True"
| "is_LLMProviderError (LLMProviderQuotaError _) = True"
| "is_LLMProviderError (LLMProviderUnavailableError _) = True"
| "is_LLMProviderError _ = False"

fun is_FallbackError :: "exn \<Rightarrow> bool" where
  "is_FallbackError (FallbackError _) = True"
| "is_FallbackError _ = False"

fun is_CacheError :: "exn \<Rightarrow> bool" where
  "is_CacheError (CacheError _) = True"
| "is_CacheError _ = False"

text \<open>\<open>str(e)\<close> of an exception of this hierarchy is its message.\<close>

fun exn_message :: "exn \<Rightarrow> string" where
  "exn_message (LLMProviderError m) = m"
| "exn_message (LLMProviderTimeoutError m) = m"
| "exn_message (LLMProviderQuotaError m) = m"
| "exn_message (LLMProviderUnavailableError m) = m"
| "exn_message (FallbackError m) = m"
| "exn_message (CacheError m) = m"
| "exn_message (TextProcessingError m) = m"
| "exn_message (OtherError m) = m"


section \<open>Circuit breaker (app/services/summary\_service.py, class CircuitBreaker)\<close>

text \<open>
  The breaker's fields. Times are the readings of \<open>time.time()\<close>, taken as real
  numbers; \<open>last_failure_time\<close> is \<open>None\<close> until the first qualifying failure.
  \<open>expected_exception\<close> is the \<open>isinstance\<close> test against the configured class.
\<close>

record circuit_breaker =
  failure_threshold :: int
  recovery_timeout :: int
  expected_exception :: "exn \<Rightarrow> bool"
  failure_count :: int
  last_failure_time :: "real option"
  is_open :: bool

definition CircuitBreaker :: "int \<Rightarrow> int \<Rightarrow> (exn \<Rightarrow> bool) \<Rightarrow> circuit_breaker" where
  "CircuitBreaker threshold timeout expected =
     \<lparr> failure_threshold = threshold, recovery_timeout = timeout,
       expected_exception = expected, failure_count = 0,
       last_failure_time = None, is_open = False \<rparr>"

definition should_attempt_reset :: "circuit_breaker \<Rightarrow> real \<Rightarrow> bool" where
  "should_attempt_reset b now =
     (case last_failure_time b of
        None \<Rightarrow> True
      | Some t \<Rightarrow> now - t \<ge> real_of_int (recovery_timeout b))"

text \<open>\<open>__aenter__\<close>: either raises (\<open>Inl\<close>) or lets the body run on the updated breaker.\<close>

definition aenter :: "circuit_breaker \<Rightarrow> real \<Rightarrow> exn + circuit_breaker" where
  "aenter b now =
     (if is_open b then
        (if should_attempt_reset b now
         then Inr (b\<lparr>is_open := False, failure_count := 0\<rparr>)
         else Inl (LLMProviderUnavailableError ''Circuit breaker is open''))
      else Inr b)"

text \<open>
  \<open>__aexit__\<close>: \<open>exc\<close> is the exception the body raised, if any; \<open>now\<close> is the clock
  reading taken when a qualifying failure is recorded. The exception is never suppressed.
\<close>

definition aexit :: "circuit_breaker \<Rightarrow> exn option \<Rightarrow> real \<Rightarrow> circuit_breaker" where
  "aexit b exc now =
     (case exc of
        None \<Rightarrow> b\<lparr>failure_count := 0\<rparr>
      | Some e \<Rightarrow>
          if expected_exception b e then
            (let b' = b\<lparr>failure_count := failure_count b + 1, last_failure_time := Some now\<rparr>
             in if failure_count b' \<ge> failure_threshold b' then b'\<lparr>is_open := True\<rparr> else b')
          else b)"

text \<open>
  \<open>async with breaker: body\<close>. The body's outcome is given (\<open>Inl\<close> an exception it
  raises); the boolean of the result says whether the body ran at all. When
  \<open>__aenter__\<close> raises, the body does not run and \<open>__aexit__\<close> is not called.
\<close>

definition guarded_call ::
  "circuit_breaker \<Rightarrow> real \<Rightarrow> (exn + 'a) \<Rightarrow> real \<Rightarrow> (exn + 'a) \<times> bool \<times> circuit_breaker" where
  "guarded_call b t_enter body t_exit =
     (case aenter b t_enter of
        Inl e \<Rightarrow> (Inl e, False, b)
      | Inr b1 \<Rightarrow>
          (body, True,
           aexit b1 (case body of Inl e \<Rightarrow> Some e | Inr _ \<Rightarrow> None) t_exit))"

text \<open>
  A run of guarded calls whose bodies all raise: each element gives the clock at entry,
  the exception of the body and the clock at exit.
\<close>

fun run_failures :: "circuit_breaker \<Rightarrow> (real \<times> exn \<times> real) list \<Rightarrow> circuit_breaker" where
  "run_failures b [] = b"
| "run_failures b ((t_enter, e, t_exit) # cs) =
     run_failures (snd (snd (guarded_call b t_enter (Inl e :: exn + unit) t_exit))) cs"

text \<open>
  The breaker of \<open>SummaryService\<close> (threshold 3, timeout 60 s, qualifying class
  \<open>LLMProviderError\<close>) after three consecutive provider failures, the last one
  recorded at time 5.
\<close>

definition three_failures :: "(real \<times> exn \<times> real) list" where
  "three_failures =
     [(0, LLMProviderError ''down'', 1),
      (2, LLMProviderTimeoutError ''LLM provider timed out'', 3),
      (4, LLMProviderQuotaError ''quota'', 5)]"

definition tripped_breaker :: circuit_breaker where
  "tripped_breaker = run_failures (CircuitBreaker 3 60 is_LLMProviderError) three_failures"


definition reopening_failures :: "(real \<times> exn \<times> real) list" where
  "reopening_failures =
     [(65, LLMProviderError ''down'', 66),
      (67, LLMProviderUnavailableError ''unavailable'', 68),
      (69, LLMProviderTimeoutError ''LLM provider timed out'', 70)]"


section \<open>Sliding-window rate limiter (app/api/middleware/rate\_limit.py)\<close>

text \<open>
  Python's \<open>int(x)\<close> on a float truncates towards zero.
\<close>

definition py_int :: "real \<Rightarrow> int" where
  "py_int x = (if x \<ge> 0 then \<lfloor>x\<rfloor> else \<lceil>x\<rceil>)"

text \<open>
  The dictionary \<open>rate_limit_info\<close> returned by \<open>is_allowed\<close>, with its four keys
  \<open>limit\<close>, \<open>remaining\<close>, \<open>reset\<close> and \<open>retry_after\<close>.
\<close>

record rate_limit_info =
  info_limit :: int
  info_remaining :: int
  info_reset :: int
  info_retry_after :: int

text \<open>
  \<open>request_history\<close> is a \<open>defaultdict\<close> of deques: every identifier has a history, empty
  until written. A deque is a list whose head is its left end (the oldest timestamp).
\<close>

type_synonym request_history = "string \<Rightarrow> real list"

text \<open>
  The pruning loop \<open>while history and history[0] <= cutoff_time: history.popleft()\<close>.
\<close>

fun prune :: "real \<Rightarrow> real list \<Rightarrow> real list" where
  "prune cutoff_time [] = []"
| "prune cutoff_time (t # history) =
     (if t \<le> cutoff_time then prune cutoff_time history else t # history)"

text \<open>
  \<open>InMemoryRateLimiter.is_allowed\<close>; \<open>current_time\<close> is the reading of \<open>time.time()\<close>.
  The result is the returned pair and the updated dictionary.
\<close>

definition is_allowed ::
  "request_history \<Rightarrow> string \<Rightarrow> int \<Rightarrow> int \<Rightarrow> real
     \<Rightarrow> (bool \<times> rate_limit_info) \<times> request_history" where
  "is_allowed request_history identifier limit window_seconds current_time =
     (let cutoff_time = current_time - real_of_int window_seconds;
          history = prune cutoff_time (request_history identifier);
          current_count = int (length history);
          allowed = (current_count < limit);
          history = (if allowed then history @ [current_time] else history);
          reset_time = (if history \<noteq> [] then py_int (current_time + real_of_int window_seconds)
                        else py_int current_time);
          info = \<lparr> info_limit = limit,
                   info_remaining = max 0 (limit - current_count - (if allowed then 1 else 0)),
                   info_reset = reset_time,
                   info_retry_after = max 1 (py_int (real_of_int window_seconds -
                       (current_time - (if history \<noteq> [] then hd history else current_time)))) \<rparr>
      in ((allowed, info), request_history(identifier := history)))"

text \<open>
  A sequence of calls of \<open>is_allowed\<close> for one identifier with a fixed limit and window,
  at the given clock readings: each call's time, verdict and info.
\<close>

fun run_requests ::
  "request_history \<Rightarrow> string \<Rightarrow> int \<Rightarrow> int \<Rightarrow> real list
     \<Rightarrow> (real \<times> bool \<times> rate_limit_info) list" where
  "run_requests rh identifier limit window_seconds [] = []"
| "run_requests rh identifier limit window_seconds (t # ts) =
     (case is_allowed rh identifier limit window_seconds t of
        (res, rh') \<Rightarrow> (t, res) # run_requests rh' identifier limit window_seconds ts)"

text \<open>The times of the requests of a run that were allowed.\<close>

definition admitted_times :: "(real \<times> bool \<times> rate_limit_info) list \<Rightarrow> real list" where
  "admitted_times rs = map fst (filter (\<lambda>r. fst (snd r)) rs)"

text \<open>
  The number of timestamps of \<open>xs\<close> in the half-open interval \<open>(a, a + W]\<close> of length
  \<open>W\<close>.
\<close>

definition in_window :: "int \<Rightarrow> real \<Rightarrow> real list \<Rightarrow> nat" where
  "in_window W a xs = length (filter (\<lambda>t. a < t \<and> t \<le> a + real_of_int W) xs)"

text \<open>The \<open>limits\<close> dictionary of \<open>_get_rate_limit_config\<close>.\<close>

record limits =
  requests_per_minute :: int
  requests_per_hour :: int

text \<open>The dictionary returned by \<open>_check_rate_limits\<close>.\<close>

record rate_limit_result =
  result_allowed :: bool
  result_limit :: int
  result_remaining :: int
  result_reset :: int
  result_retry_after :: int
  result_window :: string

text \<open>
  \<open>RateLimitMiddleware._check_rate_limits\<close>. Each of the two calls of \<open>is_allowed\<close>
  reads the clock itself: \<open>t_minute\<close> and \<open>t_hour\<close> are the two readings.
\<close>

definition check_rate_limits ::
  "request_history \<Rightarrow> string \<Rightarrow> limits \<Rightarrow> real \<Rightarrow> real
     \<Rightarrow> rate_limit_result \<times> request_history" where
  "check_rate_limits request_history identifier lims t_minute t_hour =
     (case is_allowed request_history (identifier @ '':minute'')
             (requests_per_minute lims) 60 t_minute of
        ((minute_allowed, minute_info), request_history1) \<Rightarrow>
     (case is_allowed request_history1 (identifier @ '':hour'')
             (requests_per_hour lims) 3600 t_hour of
        ((hour_allowed, hour_info), request_history2) \<Rightarrow>
     (let allowed = (minute_allowed \<and> hour_allowed);
          (limit_info, window) =
             (if \<not> minute_allowed then (minute_info, ''minute'')
              else if \<not> hour_allowed then (hour_info, ''hour'')
              else (minute_info, ''minute''))
      in (\<lparr> result_allowed = allowed,
             result_limit = info_limit limit_info,
             result_remaining = info_remaining limit_info,
             result_reset = info_reset limit_info,
             result_retry_after = info_retry_after limit_info,
             result_window = window \<rparr>,
          request_history2))))"

text \<open>The limit, remaining, reset and retry-after entries of a check's result.\<close>

definition metadata_of :: "rate_limit_result \<Rightarrow> rate_limit_info" where
  "metadata_of r =
     \<lparr> info_limit = result_limit r, info_remaining = result_remaining r,
       info_reset = result_reset r, info_retry_after = result_retry_after r \<rparr>"

text \<open>Example states: histories of one identifier and of one client's two windows.\<close>

definition two_seen :: request_history where
  "two_seen = (\<lambda>_. [])(''u'' := [0, 1])"

definition minute_full :: request_history where
  "minute_full = (\<lambda>_. [])(''ip:10.0.0.1:minute'' := [0, 1], ''ip:10.0.0.1:hour'' := [0, 1])"

definition hour_full :: request_history where
  "hour_full = (\<lambda>_. [])(''ip:10.0.0.1:minute'' := [100], ''ip:10.0.0.1:hour'' := [0, 100])"

text \<open>
  A sequence of calls of \<open>_check_rate_limits\<close> for one client, one call at each of the
  given times, and the histories it leaves: with 2 requests per minute and 3 per hour,
  after requests at times 100, 101 and 102 from the empty dictionary.
\<close>

fun run_checks :: "request_history \<Rightarrow> string \<Rightarrow> limits \<Rightarrow> real list \<Rightarrow> request_history" where
  "run_checks rh ident lims [] = rh"
| "run_checks rh ident lims (t # ts) =
     run_checks (snd (check_rate_limits rh ident lims t t)) ident lims ts"

definition burst_history :: request_history where
  "burst_history =
     run_checks (\<lambda>_. []) ''ip:10.0.0.1''
       \<lparr>requests_per_minute = 2, requests_per_hour = 3\<rparr> [100, 101, 102]"


section \<open>Local memory cache (app/services/cache/memory\_cache.py)\<close>

text \<open>
  A \<open>datetime.timedelta\<close> is a whole number of microseconds; \<open>total_seconds()\<close> is
  that number divided by \<open>10^6\<close>, and a \<open>timedelta\<close> is falsy exactly when it is zero.
\<close>

type_synonym timedelta = int

definition timedelta_seconds :: "int \<Rightarrow> timedelta" where
  "timedelta_seconds n = n * 1000000"

definition total_seconds :: "timedelta \<Rightarrow> real" where
  "total_seconds td = real_of_int td / 1000000"

text \<open>
  \<open>class CacheEntry\<close>. The constructor and the methods read the clock: the reading is
  the argument \<open>now\<close>.
\<close>

record cache_entry =
  entry_value :: summary_response
  created_at :: real
  expires_at :: real
  access_count :: int
  last_accessed :: real

definition CacheEntry :: "summary_response \<Rightarrow> int \<Rightarrow> real \<Rightarrow> cache_entry" where
  "CacheEntry v ttl_seconds now =
     \<lparr> entry_value = v, created_at = now, expires_at = now + real_of_int ttl_seconds,
       access_count = 0, last_accessed = now \<rparr>"

definition is_expired :: "cache_entry \<Rightarrow> real \<Rightarrow> bool" where
  "is_expired e now = (now > expires_at e)"

definition access :: "cache_entry \<Rightarrow> real \<Rightarrow> summary_response \<times> cache_entry" where
  "access e now = (entry_value e, e\<lparr>access_count := access_count e + 1, last_accessed := now\<rparr>)"

text \<open>
  The \<open>OrderedDict\<close> holding the entries: an association list in iteration order (the
  head is the first key), with the operations the cache uses. \<open>d[k] = v\<close> keeps the
  position of a key already present and appends a new key; \<open>move_to_end\<close> and \<open>del\<close>
  are only called on keys that are present.
\<close>

type_synonym 'v ordered_dict = "(string \<times> 'v) list"

definition od_contains :: "'v ordered_dict \<Rightarrow> string \<Rightarrow> bool" where
  "od_contains d k = (k \<in> set (map fst d))"

definition od_delitem :: "'v ordered_dict \<Rightarrow> string \<Rightarrow> 'v ordered_dict" where
  "od_delitem d k = filter (\<lambda>kv. fst kv \<noteq> k) d"

definition od_setitem :: "'v ordered_dict \<Rightarrow> string \<Rightarrow> 'v \<Rightarrow> 'v ordered_dict" where
  "od_setitem d k v =
     (if od_contains d k then map (\<lambda>kv. if fst kv = k then (k, v) else kv) d
      else d @ [(k, v)])"

definition od_move_to_end :: "'v ordered_dict \<Rightarrow> string \<Rightarrow> 'v ordered_dict" where
  "od_move_to_end d k =
     (case map_of d k of None \<Rightarrow> d | Some v \<Rightarrow> od_delitem d k @ [(k, v)])"

text \<open>
  The \<open>stats\<close> dictionary and the service's fields.
\<close>

record cache_stats =
  hits :: int
  misses :: int
  sets :: int
  deletes :: int
  evictions :: int
  expired_cleanups :: int
  total_operations :: int

record memory_cache =
  max_size :: int
  default_ttl :: int
  cache :: "cache_entry ordered_dict"
  stats :: cache_stats

definition MemoryCacheService :: "int \<Rightarrow> int \<Rightarrow> memory_cache" where
  "MemoryCacheService msize dttl =
     \<lparr> max_size = msize, default_ttl = dttl, cache = [],
       stats = \<lparr> hits = 0, misses = 0, sets = 0, deletes = 0, evictions = 0,
                 expired_cleanups = 0, total_operations = 0 \<rparr> \<rparr>"

text \<open>
  \<open>MemoryCacheService.get_summary\<close>: the returned value and the updated service.
  \<open>entry.access()\<close> updates the entry held by the dictionary.
\<close>

definition get_summary :: "memory_cache \<Rightarrow> string \<Rightarrow> real \<Rightarrow> summary_response option \<times> memory_cache" where
  "get_summary mc cache_key now =
     (case map_of (cache mc) cache_key of
        None \<Rightarrow>
          (None, mc\<lparr>stats := (stats mc)\<lparr>misses := misses (stats mc) + 1,
                       total_operations := total_operations (stats mc) + 1\<rparr>\<rparr>)
      | Some entry \<Rightarrow>
          if is_expired entry now then
            (None, mc\<lparr>cache := od_delitem (cache mc) cache_key,
                      stats := (stats mc)\<lparr>misses := misses (stats mc) + 1,
                        expired_cleanups := expired_cleanups (stats mc) + 1,
                        total_operations := total_operations (stats mc) + 1\<rparr>\<rparr>)
          else
            (case access entry now of
               (response, entry') \<Rightarrow>
                 (Some response,
                  mc\<lparr>cache := od_setitem (od_move_to_end (cache mc) cache_key) cache_key entry',
                     stats := (stats mc)\<lparr>hits := hits (stats mc) + 1,
                        total_operations := total_operations (stats mc) + 1\<rparr>\<rparr>)))"

text \<open>
  \<open>MemoryCacheService._evict_lru\<close>: removes the first key of the dictionary.
\<close>

definition evict_lru :: "memory_cache \<Rightarrow> memory_cache" where
  "evict_lru mc =
     (if cache mc \<noteq> [] then
        (let evicted_key = fst (hd (cache mc))
         in mc\<lparr>cache := od_delitem (cache mc) evicted_key,
               stats := (stats mc)\<lparr>evictions := evictions (stats mc) + 1\<rparr>\<rparr>)
      else mc)"

text \<open>
  \<open>MemoryCacheService.set_summary\<close>. \<open>ttl\<close> is \<open>Optional[timedelta]\<close>; the test
  \<open>if ttl\<close> fails for \<open>None\<close> and for a zero \<open>timedelta\<close>. Nothing in the body raises, so
  the \<open>except\<close> branch is never taken and the call returns \<open>True\<close>.
\<close>

definition set_summary ::
  "memory_cache \<Rightarrow> string \<Rightarrow> summary_response \<Rightarrow> timedelta option \<Rightarrow> real
     \<Rightarrow> bool \<times> memory_cache" where
  "set_summary mc cache_key response ttl now =
     (let ttl_seconds = (case ttl of
                           None \<Rightarrow> default_ttl mc
                         | Some td \<Rightarrow> if td \<noteq> 0 then py_int (total_seconds td)
                                      else default_ttl mc);
          entry = CacheEntry response ttl_seconds now;
          mc1 = (if \<not> od_contains (cache mc) cache_key \<and> int (length (cache mc)) \<ge> max_size mc
                 then evict_lru mc else mc);
          mc2 = mc1\<lparr>cache := od_move_to_end (od_setitem (cache mc1) cache_key entry) cache_key\<rparr>
      in (True, mc2\<lparr>stats := (stats mc2)\<lparr>sets := sets (stats mc2) + 1,
                        total_operations := total_operations (stats mc2) + 1\<rparr>\<rparr>))"

text \<open>
  Sequences of \<open>get_summary\<close> and \<open>set_summary\<close> calls, each with its clock reading.
\<close>

datatype cache_op =
    GetSummary string real
  | SetSummary string summary_response "timedelta option" real

fun op_time :: "cache_op \<Rightarrow> real" where
  "op_time (GetSummary k now) = now"
| "op_time (SetSummary k v ttl now) = now"

fun apply_op :: "memory_cache \<Rightarrow> cache_op \<Rightarrow> memory_cache" where
  "apply_op mc (GetSummary k now) = snd (get_summary mc k now)"
| "apply_op mc (SetSummary k v ttl now) = snd (set_summary mc k v ttl now)"

fun run_ops :: "memory_cache \<Rightarrow> cache_op list \<Rightarrow> memory_cache" where
  "run_ops mc [] = mc"
| "run_ops mc (x # xs) = run_ops (apply_op mc x) xs"

text \<open>
  The value of the local variable \<open>ttl_seconds\<close> of \<open>set_summary\<close>.
\<close>

definition ttl_seconds_of :: "memory_cache \<Rightarrow> timedelta option \<Rightarrow> int" where
  "ttl_seconds_of mc ttl =
     (case ttl of None \<Rightarrow> default_ttl mc
      | Some td \<Rightarrow> if td \<noteq> 0 then py_int (total_seconds td) else default_ttl mc)"

text \<open>
  The store's invariant: distinct keys, and no more than \<open>max_size\<close> entries.
\<close>

definition cache_inv :: "memory_cache \<Rightarrow> bool" where
  "cache_inv mc = (distinct (map fst (cache mc)) \<and> int (length (cache mc)) \<le> max_size mc)"

text \<open>
  The dictionary is in order of last use: \<open>last_accessed\<close> does not decrease along it,
  and no entry was used after time \<open>t\<close>.
\<close>

definition recency_sorted :: "memory_cache \<Rightarrow> real \<Rightarrow> bool" where
  "recency_sorted mc t =
     (sorted (map (\<lambda>kv. last_accessed (snd kv)) (cache mc))
      \<and> list_all (\<lambda>kv. last_accessed (snd kv) \<le> t) (cache mc))"

text \<open>
  Example states: an entry written with a TTL of two seconds at time 0; a store of
  capacity 2 after writing \<open>A\<close>, writing \<open>B\<close> and reading \<open>A\<close>.
\<close>

definition two_second_cache :: memory_cache where
  "two_second_cache =
     snd (set_summary (MemoryCacheService 1000 3600) ''K'' sample_response
            (Some (timedelta_seconds 2)) 0)"

definition full_cache :: memory_cache where
  "full_cache =
     run_ops (MemoryCacheService 2 3600)
       [SetSummary ''A'' sample_response None 1,
        SetSummary ''B'' sample_response None 2,
        GetSummary ''A'' 3]"

definition lru_ops :: "cache_op list" where
  "lru_ops =
     [SetSummary ''A'' sample_response None 1,
      SetSummary ''B'' sample_response None 2,
      GetSummary ''A'' 3,
      SetSummary ''C'' sample_response None 4]"


section \<open>TextRank fallback (app/services/fallback/textrank\_summarizer.py)\<close>

text \<open>
  \<open>TextRankSummarizer._calculate_num_sentences\<close>. \<open>sent_tokenize\<close> is the tokenizer of
  the \<open>nltk\<close> library, taken as a parameter. \<open>//\<close> is floor division.
\<close>

definition calculate_num_sentences :: "(string \<Rightarrow> string list) \<Rightarrow> summary_request \<Rightarrow> int" where
  "calculate_num_sentences sent_tokenize request =
     (let avg_tokens_per_sentence = 20;
          max_sentences = max 1 (req_max_tokens request div avg_tokens_per_sentence);
          total_sentences = int (length (sent_tokenize (req_text request)));
          suggested_sentences = max 1 (min max_sentences (total_sentences div 3))
      in min suggested_sentences 10)"

text \<open>
  The slice \<open>xs[:n]\<close>, for any integer \<open>n\<close>.
\<close>

definition py_take :: "int \<Rightarrow> 'a list \<Rightarrow> 'a list" where
  "py_take n xs = (if n \<ge> 0 then take (nat n) xs else take (length xs - nat (- n)) xs)"

text \<open>
  The indices selected by \<open>extract_sentences\<close>:
  \<open>sorted(np.argsort(scores)[::-1][:num_sentences])\<close>. \<open>argsort\<close> is \<open>np.argsort\<close>, taken as
  a parameter.
\<close>

definition top_indices :: "(real list \<Rightarrow> nat list) \<Rightarrow> real list \<Rightarrow> int \<Rightarrow> nat list" where
  "top_indices argsort scores num_sentences =
     sort (py_take num_sentences (rev (argsort scores)))"

text \<open>
  \<open>TextRankSummarizer.extract_sentences\<close>. \<open>textrank_scores\<close> stands for the numeric
  pipeline from the sentences to their scores (preprocessing, TF-IDF vectors, cosine
  similarity, threshold, power iteration), which returns the scores or raises. Every
  exception inside the body, an index out of range included, is re-raised as
  \<open>TextProcessingError\<close>.
\<close>

definition extract_sentences ::
  "(string \<Rightarrow> string list) \<Rightarrow> (string list \<Rightarrow> exn + real list) \<Rightarrow> (real list \<Rightarrow> nat list)
     \<Rightarrow> string \<Rightarrow> int \<Rightarrow> exn + string list" where
  "extract_sentences sent_tokenize textrank_scores argsort text num_sentences =
     (let sentences = sent_tokenize text in
      if int (length sentences) \<le> num_sentences then Inr sentences
      else
        (case textrank_scores sentences of
           Inl e \<Rightarrow> Inl (TextProcessingError (''Sentence extraction failed: '' @ exn_message e))
         | Inr scores \<Rightarrow>
             (let ranked_indices = top_indices argsort scores num_sentences in
              if list_all (\<lambda>i. i < length sentences) ranked_indices
              then Inr (map (\<lambda>i. sentences ! i) ranked_indices)
              else Inl (TextProcessingError
                          ''Sentence extraction failed: list index out of range''))))"

text \<open>
  What \<open>np.argsort\<close> returns: a permutation of the indices that lists the scores in
  non-decreasing order.
\<close>

definition is_argsort :: "real list \<Rightarrow> nat list \<Rightarrow> bool" where
  "is_argsort scores p =
     (sort p = [0..<length scores] \<and> sorted (map (\<lambda>i. scores ! i) p))"

text \<open>
  An example text of four sentences with its scores and their argsort.
\<close>

definition four_sentences :: "string \<Rightarrow> string list" where
  "four_sentences text = [''Alpha one.'', ''Beta two.'', ''Gamma three.'', ''Delta four.'']"

definition four_scores :: "string list \<Rightarrow> exn + real list" where
  "four_scores sentences = Inr [1/10, 4/10, 2/10, 3/10]"

definition four_argsort :: "real list \<Rightarrow> nat list" where
  "four_argsort scores = [0, 2, 3, 1]"


section \<open>Fallback services and the orchestrator (app/services/summary\_service.py)\<close>

text \<open>
  \<open>sep.join(xs)\<close> and \<open>s.strip()\<close>; \<open>strip\<close> removes the ASCII whitespace characters.
\<close>

definition py_join :: "string \<Rightarrow> string list \<Rightarrow> string" where
  "py_join sep xs = (case xs of [] \<Rightarrow> [] | x # ys \<Rightarrow> x @ concat (map (\<lambda>y. sep @ y) ys))"

definition is_space :: "char \<Rightarrow> bool" where
  "is_space c = (c \<in> set [CHR '' '', CHR 0x09, CHR 0x0A, CHR 0x0B, CHR 0x0C, CHR 0x0D,
                            CHR 0x1C, CHR 0x1D, CHR 0x1E, CHR 0x1F])"

definition py_strip :: "string \<Rightarrow> string" where
  "py_strip s = rev (dropWhile is_space (rev (dropWhile is_space s)))"

text \<open>
  The constructor of \<open>SummaryResponse\<close> with its field constraints and validators: the
  token counts and the latency must not be negative, the summary must not be blank and
  must have at least five characters once stripped; the stored summary is the stripped
  one. A failed validation raises an exception outside the service's own hierarchy.
\<close>

definition SummaryResponse ::
  "string \<Rightarrow> int \<Rightarrow> int \<Rightarrow> string \<Rightarrow> real \<Rightarrow> summary_source \<Rightarrow> string option
     \<Rightarrow> exn + summary_response" where
  "SummaryResponse summary prompt_tokens completion_tokens model latency_ms source request_id =
     (if prompt_tokens < 0 \<or> completion_tokens < 0 then
        Inl (OtherError ''ensure this value is greater than or equal to 0'')
      else if summary = [] \<or> py_strip summary = [] then
        Inl (OtherError ''Summary cannot be empty'')
      else if length (py_strip summary) < 5 then
        Inl (OtherError ''Summary is too short'')
      else if latency_ms < 0 then
        Inl (OtherError ''ensure this value is greater than or equal to 0'')
      else
        Inr \<lparr> resp_summary = py_strip summary, resp_prompt_tokens = prompt_tokens,
              resp_completion_tokens = completion_tokens, resp_model = model,
              resp_latency_ms = latency_ms, resp_source = source,
              resp_request_id = request_id, resp_cache_hit = False \<rparr>)"

text \<open>
  \<open>LanguageCode(language_code)\<close>, with \<open>None\<close> for the \<open>ValueError\<close> of an unknown value,
  and \<open>TextRankSummarizer.supports_language\<close>.
\<close>

definition LanguageCode_of :: "string \<Rightarrow> language_code option" where
  "LanguageCode_of s =
     find (\<lambda>l. language_value l = s)
       [AUTO, SPANISH, ENGLISH, FRENCH, GERMAN, ITALIAN, PORTUGUESE, RUSSIAN, CHINESE,
        JAPANESE, KOREAN]"

definition textrank_supports_language :: "string \<Rightarrow> bool" where
  "textrank_supports_language language_code =
     (case LanguageCode_of language_code of
        None \<Rightarrow> False
      | Some lang_enum \<Rightarrow>
          lang_enum \<in> set [AUTO, ENGLISH, SPANISH, FRENCH, GERMAN, ITALIAN, PORTUGUESE])"

text \<open>
  \<open>TextRankSummarizer.generate_summary\<close>. \<open>latency_ms\<close> is the measured latency. Every
  exception inside the body is re-raised as \<open>FallbackError\<close>; the division of the
  logged compression ratio fails on an empty text.
\<close>

definition textrank_generate_summary ::
  "(string \<Rightarrow> string list) \<Rightarrow> (string list \<Rightarrow> exn + real list) \<Rightarrow> (real list \<Rightarrow> nat list)
     \<Rightarrow> real \<Rightarrow> summary_request \<Rightarrow> exn + summary_response" where
  "textrank_generate_summary sent_tokenize textrank_scores argsort latency_ms request =
     (let failed = (\<lambda>e. Inl (FallbackError (''TextRank summarization failed: '' @ exn_message e)))
      in case extract_sentences sent_tokenize textrank_scores argsort (req_text request)
                (calculate_num_sentences sent_tokenize request) of
           Inl e \<Rightarrow> failed e
         | Inr sentences \<Rightarrow>
             (let summary_text = py_join '' '' sentences;
                  prompt_tokens = int (length (req_text request)) div 4;
                  completion_tokens = int (length summary_text) div 4
              in case SummaryResponse summary_text prompt_tokens completion_tokens ''textrank''
                        latency_ms FALLBACK_TEXTRANK (req_request_id request) of
                   Inl e \<Rightarrow> failed e
                 | Inr response \<Rightarrow>
                     if req_text request = [] then failed (OtherError ''division by zero'')
                     else Inr response))"

text \<open>
  The \<open>FallbackService\<close> interface: an implementation gives the three methods.
\<close>

record fallback_service =
  fs_supports_language :: "string \<Rightarrow> bool"
  fs_generate_summary :: "summary_request \<Rightarrow> exn + summary_response"
  fs_algorithm_name :: string

definition TextRankSummarizer ::
  "(string \<Rightarrow> string list) \<Rightarrow> (string list \<Rightarrow> exn + real list) \<Rightarrow> (real list \<Rightarrow> nat list)
     \<Rightarrow> real \<Rightarrow> fallback_service" where
  "TextRankSummarizer sent_tokenize textrank_scores argsort latency_ms =
     \<lparr> fs_supports_language = textrank_supports_language,
       fs_generate_summary =
         textrank_generate_summary sent_tokenize textrank_scores argsort latency_ms,
       fs_algorithm_name = ''textrank'' \<rparr>"

text \<open>
  The TF-IDF service (app/services/fallback/tfidf\_summarizer.py):
  \<open>_calculate_num_sentences\<close>, \<open>extract_sentences\<close>, \<open>generate_summary\<close> and
  \<open>supports_language\<close>. \<open>get_sentence_scores\<close>, the numeric scoring, is a parameter that
  returns the dictionary of the scores or raises; \<open>dict_get\<close> is \<open>scores.get(s, 0.0)\<close>.
  \<open>sort(key=..., reverse=True)\<close> is stable, as \<open>sort_key\<close> on the negated score is.
\<close>

definition tfidf_calculate_num_sentences :: "(string \<Rightarrow> string list) \<Rightarrow> summary_request \<Rightarrow> int" where
  "tfidf_calculate_num_sentences sent_tokenize request =
     (let avg_tokens_per_sentence = 20;
          max_sentences = max 1 (req_max_tokens request div avg_tokens_per_sentence);
          total_sentences = int (length (sent_tokenize (req_text request)));
          suggested_sentences = max 1 (min max_sentences (total_sentences div 4))
      in min suggested_sentences 8)"

definition dict_get :: "(string \<times> real) list \<Rightarrow> string \<Rightarrow> real \<Rightarrow> real" where
  "dict_get d k dflt = (case map_of d k of None \<Rightarrow> dflt | Some v \<Rightarrow> v)"

definition tfidf_extract_sentences ::
  "(string \<Rightarrow> string list) \<Rightarrow> (string \<Rightarrow> exn + (string \<times> real) list)
     \<Rightarrow> string \<Rightarrow> int \<Rightarrow> int \<Rightarrow> exn + string list" where
  "tfidf_extract_sentences sent_tokenize get_sentence_scores text num_sentences min_length =
     (let sentences = sent_tokenize text;
          valid_sentences = filter (\<lambda>s. int (length (py_strip s)) \<ge> min_length) sentences
      in if int (length valid_sentences) \<le> num_sentences then Inr valid_sentences
         else
           (case get_sentence_scores text of
              Inl e \<Rightarrow> Inl (TextProcessingError (''Sentence extraction failed: '' @ exn_message e))
            | Inr scores \<Rightarrow>
                (let scored_sentences = map (\<lambda>s. (s, dict_get scores s 0)) valid_sentences;
                     scored_sentences = sort_key (\<lambda>x. - snd x) scored_sentences;
                     top_sentences = map fst (py_take num_sentences scored_sentences);
                     original_order = filter (\<lambda>sentence. sentence \<in> set top_sentences) sentences
                 in Inr original_order)))"

definition tfidf_generate_summary ::
  "(string \<Rightarrow> string list) \<Rightarrow> (string \<Rightarrow> exn + (string \<times> real) list) \<Rightarrow> int
     \<Rightarrow> real \<Rightarrow> summary_request \<Rightarrow> exn + summary_response" where
  "tfidf_generate_summary sent_tokenize get_sentence_scores min_sentence_length latency_ms request =
     (let failed = (\<lambda>e. Inl (FallbackError (''TF-IDF summarization failed: '' @ exn_message e)))
      in case tfidf_extract_sentences sent_tokenize get_sentence_scores (req_text request)
                (tfidf_calculate_num_sentences sent_tokenize request) min_sentence_length of
           Inl e \<Rightarrow> failed e
         | Inr sentences \<Rightarrow>
             (let summary_text = py_join '' '' sentences;
                  prompt_tokens = int (length (req_text request)) div 4;
                  completion_tokens = int (length summary_text) div 4
              in case SummaryResponse summary_text prompt_tokens completion_tokens ''tfidf''
                        latency_ms FALLBACK_TFIDF (req_request_id request) of
                   Inl e \<Rightarrow> failed e
                 | Inr response \<Rightarrow>
                     if req_text request = [] then failed (OtherError ''division by zero'')
                     else Inr response))"

definition tfidf_supports_language :: "string \<Rightarrow> bool" where
  "tfidf_supports_language language_code =
     (case LanguageCode_of language_code of
        None \<Rightarrow> False
      | Some lang_enum \<Rightarrow>
          lang_enum \<in> set [AUTO, ENGLISH, SPANISH, FRENCH, GERMAN, ITALIAN, PORTUGUESE,
                            RUSSIAN])"

definition TFIDFSummarizer ::
  "(string \<Rightarrow> string list) \<Rightarrow> (string \<Rightarrow> exn + (string \<times> real) list) \<Rightarrow> int \<Rightarrow> real
     \<Rightarrow> fallback_service" where
  "TFIDFSummarizer sent_tokenize get_sentence_scores min_sentence_length latency_ms =
     \<lparr> fs_supports_language = tfidf_supports_language,
       fs_generate_summary =
         tfidf_generate_summary sent_tokenize get_sentence_scores min_sentence_length latency_ms,
       fs_algorithm_name = ''tfidf'' \<rparr>"

text \<open>
  What \<open>asyncio.wait_for(self.llm_provider.generate_summary(request), timeout)\<close> does: it
  returns a response, raises an exception, or runs into the timeout.
\<close>

datatype provider_outcome = Returns summary_response | Raises exn | TimesOut

text \<open>
  The \<open>CacheService\<close> interface over a cache state \<open>'c\<close>: each call returns its result or
  the exception it raises, and the new state.
\<close>

record 'c cache_service =
  cs_get_summary :: "'c \<Rightarrow> string \<Rightarrow> real \<Rightarrow> (exn + summary_response option) \<times> 'c"
  cs_set_summary ::
    "'c \<Rightarrow> string \<Rightarrow> summary_response \<Rightarrow> timedelta option \<Rightarrow> real \<Rightarrow> (exn + bool) \<times> 'c"

text \<open>
  \<open>SummaryService\<close>: its collaborators, the state of its cache and of its breaker, the
  setting \<open>settings.redis_ttl\<close>, and the request's \<open>get_cache_key\<close> with the two library
  functions fixed.
\<close>

record 'c summary_service =
  llm_provider :: "summary_request \<Rightarrow> provider_outcome"
  fallback_services :: "fallback_service list"
  cache_service :: "'c cache_service option"
  cache_state :: 'c
  circuit_breaker :: circuit_breaker
  redis_ttl :: int
  cache_key_of :: "summary_request \<Rightarrow> string"

text \<open>
  The clock readings of one call of \<open>generate_summary\<close>: at the cache lookup, at the
  breaker's entry and exit, and at the cache store.
\<close>

record clock_readings =
  clk_lookup :: real
  clk_enter :: real
  clk_exit :: real
  clk_store :: real

text \<open>
  \<open>_try_cache_lookup\<close> and \<open>_try_cache_store\<close>: a \<open>CacheError\<close> is swallowed, any other
  exception propagates.
\<close>

definition try_cache_lookup ::
  "'c cache_service \<Rightarrow> 'c \<Rightarrow> string \<Rightarrow> real \<Rightarrow> (exn + summary_response option) \<times> 'c" where
  "try_cache_lookup cs c cache_key now =
     (case cs_get_summary cs c cache_key now of
        (Inl e, c') \<Rightarrow> if is_CacheError e then (Inr None, c') else (Inl e, c')
      | (Inr None, c') \<Rightarrow> (Inr None, c')
      | (Inr (Some cached_response), c') \<Rightarrow>
          (Inr (Some (cached_response\<lparr>resp_cache_hit := True, resp_source := CACHE\<rparr>)), c'))"

definition try_cache_store ::
  "'c cache_service \<Rightarrow> 'c \<Rightarrow> string \<Rightarrow> summary_response \<Rightarrow> int option \<Rightarrow> int \<Rightarrow> real
     \<Rightarrow> exn option \<times> 'c" where
  "try_cache_store cs c cache_key response ttl_seconds settings_redis_ttl now =
     (let ttl_value = (case ttl_seconds of Some n \<Rightarrow> n | None \<Rightarrow> settings_redis_ttl);
          ttl = timedelta_seconds ttl_value
      in case cs_set_summary cs c cache_key response (Some ttl) now of
           (Inl e, c') \<Rightarrow> if is_CacheError e then (None, c') else (Some e, c')
         | (Inr ok, c') \<Rightarrow> (None, c'))"

text \<open>
  \<open>_try_llm_generation\<close>: the provider call under the breaker; a timeout becomes
  \<open>LLMProviderTimeoutError\<close> inside the guarded block.
\<close>

definition try_llm_generation ::
  "circuit_breaker \<Rightarrow> (summary_request \<Rightarrow> provider_outcome) \<Rightarrow> summary_request \<Rightarrow> real \<Rightarrow> real
     \<Rightarrow> (exn + summary_response) \<times> bool \<times> circuit_breaker" where
  "try_llm_generation b provider request now_enter now_exit =
     guarded_call b now_enter
       (case provider request of
          Returns response \<Rightarrow> Inr response
        | Raises e \<Rightarrow> Inl e
        | TimesOut \<Rightarrow> Inl (LLMProviderTimeoutError ''LLM provider timed out''))
       now_exit"

text \<open>
  \<open>_try_fallback_generation\<close>: the loop over the fallback services, with the variable
  \<open>last_error\<close>. Only \<open>FallbackError\<close> is caught.
\<close>

fun try_fallback_generation ::
  "fallback_service list \<Rightarrow> summary_request \<Rightarrow> exn option \<Rightarrow> exn + summary_response" where
  "try_fallback_generation [] request last_error =
     Inl (FallbackError (''All fallback services failed. Last error: '' @
            (case last_error of None \<Rightarrow> ''None'' | Some e \<Rightarrow> exn_message e)))"
| "try_fallback_generation (fallback_service # rest) request last_error =
     (if \<not> fs_supports_language fallback_service (language_value (req_lang request))
      then try_fallback_generation rest request last_error
      else
        (case fs_generate_summary fallback_service request of
           Inr response \<Rightarrow> Inr response
         | Inl e \<Rightarrow>
             if is_FallbackError e then try_fallback_generation rest request (Some e)
             else Inl e))"

text \<open>
  \<open>generate_summary\<close>. The two helpers are the cache steps under their guard
  \<open>if self.cache_service\<close>. The store of a provider response is inside the \<open>try\<close> block
  of the provider call; the outer handler re-raises what it catches.
\<close>

definition cache_lookup_step ::
  "'c summary_service \<Rightarrow> summary_request \<Rightarrow> real \<Rightarrow> (exn + summary_response option) \<times> 'c" where
  "cache_lookup_step svc request now =
     (case cache_service svc of
        None \<Rightarrow> (Inr None, cache_state svc)
      | Some cs \<Rightarrow> try_cache_lookup cs (cache_state svc) (cache_key_of svc request) now)"

definition cache_store_step ::
  "'c summary_service \<Rightarrow> summary_request \<Rightarrow> summary_response \<Rightarrow> int option \<Rightarrow> real \<Rightarrow> 'c
     \<Rightarrow> exn option \<times> 'c" where
  "cache_store_step svc request response ttl_seconds now c =
     (case cache_service svc of
        None \<Rightarrow> (None, c)
      | Some cs \<Rightarrow> try_cache_store cs c (cache_key_of svc request) response ttl_seconds
                    (redis_ttl svc) now)"

definition generate_summary ::
  "'c summary_service \<Rightarrow> summary_request \<Rightarrow> clock_readings
     \<Rightarrow> (exn + summary_response) \<times> 'c summary_service" where
  "generate_summary svc request clk =
     (case cache_lookup_step svc request (clk_lookup clk) of
        (Inl e, c1) \<Rightarrow> (Inl e, svc\<lparr>cache_state := c1\<rparr>)
      | (Inr (Some cached_response), c1) \<Rightarrow> (Inr cached_response, svc\<lparr>cache_state := c1\<rparr>)
      | (Inr None, c1) \<Rightarrow>
          (case try_llm_generation (circuit_breaker svc) (llm_provider svc) request
                  (clk_enter clk) (clk_exit clk) of
             (llm, invoked, b') \<Rightarrow>
               (case (case llm of
                        Inl e \<Rightarrow> (Inl e, c1)
                      | Inr response \<Rightarrow>
                          (case cache_store_step svc request response None (clk_store clk) c1 of
                             (None, c2) \<Rightarrow> (Inr response, c2)
                           | (Some e, c2) \<Rightarrow> (Inl e, c2))) of
                  (Inr response, c2) \<Rightarrow>
                    (Inr response, svc\<lparr>cache_state := c2, circuit_breaker := b'\<rparr>)
                | (Inl e, c2) \<Rightarrow>
                    if is_LLMProviderError e then
                      (case try_fallback_generation (fallback_services svc) request None of
                         Inl e' \<Rightarrow> (Inl e', svc\<lparr>cache_state := c2, circuit_breaker := b'\<rparr>)
                       | Inr response \<Rightarrow>
                           (case cache_store_step svc request response (Some 300)
                                   (clk_store clk) c2 of
                              (None, c3) \<Rightarrow>
                                (Inr response, svc\<lparr>cache_state := c3, circuit_breaker := b'\<rparr>)
                            | (Some e', c3) \<Rightarrow>
                                (Inl e', svc\<lparr>cache_state := c3, circuit_breaker := b'\<rparr>)))
                    else (Inl e, svc\<lparr>cache_state := c2, circuit_breaker := b'\<rparr>))))"

text \<open>
  The memory cache as a \<open>CacheService\<close>.
\<close>

definition memory_cache_service :: "memory_cache cache_service" where
  "memory_cache_service =
     \<lparr> cs_get_summary = (\<lambda>mc cache_key now.
          case get_summary mc cache_key now of (r, mc') \<Rightarrow> (Inr r, mc')),
       cs_set_summary = (\<lambda>mc cache_key response ttl now.
          case set_summary mc cache_key response ttl now of (ok, mc') \<Rightarrow> (Inr ok, mc')) \<rparr>"

text \<open>
  The conditions of the fallback path: the breaker rejects the call at its entry; the
  provider call times out or raises an \<open>LLMProviderError\<close>; the cache lookup returns
  nothing; the cache's \<open>set_summary\<close> raises nothing but \<open>CacheError\<close>; each fallback
  service raises nothing but \<open>FallbackError\<close> on the request (the interface's documented
  contract).
\<close>

definition breaker_rejects :: "circuit_breaker \<Rightarrow> real \<Rightarrow> bool" where
  "breaker_rejects b now = (is_open b \<and> \<not> should_attempt_reset b now)"

definition provider_fails :: "provider_outcome \<Rightarrow> bool" where
  "provider_fails outcome =
     (case outcome of Returns response \<Rightarrow> False | Raises e \<Rightarrow> is_LLMProviderError e
      | TimesOut \<Rightarrow> True)"

definition cache_lookup_misses :: "'c summary_service \<Rightarrow> summary_request \<Rightarrow> clock_readings \<Rightarrow> bool" where
  "cache_lookup_misses svc request clk =
     (fst (cache_lookup_step svc request (clk_lookup clk)) = Inr None)"

definition cache_store_contract :: "'c summary_service \<Rightarrow> bool" where
  "cache_store_contract svc =
     (case cache_service svc of
        None \<Rightarrow> True
      | Some cs \<Rightarrow>
          (\<forall>c k r ttl now.
             case fst (cs_set_summary cs c k r ttl now) of
               Inl e \<Rightarrow> is_CacheError e | Inr ok \<Rightarrow> True))"

definition fallback_contract :: "fallback_service list \<Rightarrow> summary_request \<Rightarrow> bool" where
  "fallback_contract services request =
     list_all (\<lambda>s. case fs_generate_summary s request of
                      Inl e \<Rightarrow> is_FallbackError e | Inr response \<Rightarrow> True) services"

text \<open>
  The services whose \<open>supports_language\<close> accepts the request's language, in their
  configured order, and the aggregate error raised when the loop ends.
\<close>

definition eligible_services :: "fallback_service list \<Rightarrow> summary_request \<Rightarrow> fallback_service list" where
  "eligible_services services request =
     filter (\<lambda>s. fs_supports_language s (language_value (req_lang request))) services"

definition aggregate_error :: "exn option \<Rightarrow> exn" where
  "aggregate_error last_error =
     FallbackError (''All fallback services failed. Last error: '' @
       (case last_error of None \<Rightarrow> ''None'' | Some e \<Rightarrow> exn_message e))"

text \<open>
  Example services: one that supports no language, a TextRank service whose scoring
  raises, a working TextRank and a working TF-IDF service; an orchestrator whose provider
  times out, and one whose breaker is open and whose fallback chain fails.
\<close>

definition unsupported_service :: fallback_service where
  "unsupported_service =
     \<lparr> fs_supports_language = (\<lambda>language_code. False),
       fs_generate_summary = (\<lambda>request. Inr sample_response),
       fs_algorithm_name = ''luhn'' \<rparr>"

definition failing_textrank :: fallback_service where
  "failing_textrank =
     TextRankSummarizer four_sentences (\<lambda>sentences. Inl (OtherError ''empty vocabulary''))
       four_argsort 5"

definition working_textrank :: fallback_service where
  "working_textrank = TextRankSummarizer four_sentences four_scores four_argsort 7"

definition four_tfidf_scores :: "string \<Rightarrow> exn + (string \<times> real) list" where
  "four_tfidf_scores text =
     Inr [(''Alpha one.'', 1/2), (''Beta two.'', 1), (''Gamma three.'', 1/4),
          (''Delta four.'', 3/4)]"

definition working_tfidf :: fallback_service where
  "working_tfidf = TFIDFSummarizer four_sentences four_tfidf_scores 10 3"

definition demo_service :: "memory_cache summary_service" where
  "demo_service =
     \<lparr> llm_provider = (\<lambda>request. TimesOut),
       fallback_services = [unsupported_service, failing_textrank, working_tfidf, working_textrank],
       cache_service = Some memory_cache_service,
       cache_state = MemoryCacheService 1000 3600,
       circuit_breaker = CircuitBreaker 3 60 is_LLMProviderError,
       redis_ttl = 3600,
       cache_key_of = get_cache_key toy_dumps toy_digest \<rparr>"

definition exhausted_service :: "memory_cache summary_service" where
  "exhausted_service =
     \<lparr> llm_provider = (\<lambda>request. Returns sample_response),
       fallback_services = [unsupported_service, failing_textrank],
       cache_service = Some memory_cache_service,
       cache_state = MemoryCacheService 1000 3600,
       circuit_breaker = tripped_breaker,
       redis_ttl = 3600,
       cache_key_of = get_cache_key toy_dumps toy_digest \<rparr>"

text \<open>
  An orchestrator with the default fallback chain of \<open>SummaryService\<close> (TextRank, then
  TF-IDF) whose provider raises a quota error.
\<close>

definition quota_service :: "memory_cache summary_service" where
  "quota_service =
     \<lparr> llm_provider = (\<lambda>request. Raises (LLMProviderQuotaError ''quota exceeded'')),
       fallback_services = [working_textrank, working_tfidf],
       cache_service = Some memory_cache_service,
       cache_state = MemoryCacheService 1000 3600,
       circuit_breaker = CircuitBreaker 3 60 is_LLMProviderError,
       redis_ttl = 3600,
       cache_key_of = get_cache_key toy_dumps toy_digest \<rparr>"

definition demo_clock :: clock_readings where
  "demo_clock = \<lparr> clk_lookup = 10, clk_enter = 11, clk_exit = 12, clk_store = 13 \<rparr>"


chapter \<open>Lemmas\<close>

section \<open>Circuit breaker: lemmas\<close>

lemma guarded_call_closed_failure:
  assumes "\<not> is_open b" and "expected_exception b e"
  shows "guarded_call b t1 (Inl e) t2 =
           (Inl e, True,
            b\<lparr>failure_count := failure_count b + 1, last_failure_time := Some t2,
              is_open := (failure_count b + 1 \<ge> failure_threshold b)\<rparr>)"
  using assms by (simp add: guarded_call_def aenter_def aexit_def Let_def)

lemma run_failures_count:
  assumes "\<not> is_open b" and "0 \<le> failure_count b"
    and "failure_count b + int (length cs) = failure_threshold b"
    and "cs \<noteq> []"
    and "list_all (\<lambda>c. expected_exception b (fst (snd c))) cs"
  shows "is_open (run_failures b cs)"
  using assms
proof (induction cs arbitrary: b)
  case Nil
  then show ?case by simp
next
  case (Cons c cs)
  obtain t1 e t2 where c: "c = (t1, e, t2)" by (cases c) auto
  let ?b' = "b\<lparr>failure_count := failure_count b + 1, last_failure_time := Some t2,
              is_open := (failure_count b + 1 \<ge> failure_threshold b)\<rparr>"
  have e: "expected_exception b e" using Cons.prems(5) c by simp
  have gc: "guarded_call b t1 (Inl e :: exn + unit) t2 = (Inl e, True, ?b')"
    by (rule guarded_call_closed_failure[OF Cons.prems(1) e])
  have step: "run_failures b (c # cs) = run_failures ?b' cs"
    using gc c by simp
  show ?case
  proof (cases "cs = []")
    case True
    then show ?thesis using step Cons.prems(3) by simp
  next
    case False
    have "is_open (run_failures ?b' cs)"
    proof (rule Cons.IH)
      show "\<not> is_open ?b'" using Cons.prems(3) False by (cases cs) auto
      show "0 \<le> failure_count ?b'" using Cons.prems(2) by simp
      show "failure_count ?b' + int (length cs) = failure_threshold ?b'"
        using Cons.prems(3) by simp
      show "cs \<noteq> []" by (rule False)
      show "list_all (\<lambda>c. expected_exception ?b' (fst (snd c))) cs"
        using Cons.prems(5) by simp
    qed
    then show ?thesis using step by simp
  qed
qed


lemma aenter_after_timeout:
  assumes "is_open b" and "last_failure_time b = Some t"
    and "now - t \<ge> real_of_int (recovery_timeout b)"
  shows "aenter b now = Inr (b\<lparr>is_open := False, failure_count := 0\<rparr>)"
  using assms by (simp add: aenter_def should_attempt_reset_def)


lemma guarded_call_trial_failure:
  assumes "is_open b" and "last_failure_time b = Some t"
    and "now - t \<ge> real_of_int (recovery_timeout b)"
    and "expected_exception b e"
  shows "guarded_call b now (Inl e) t_exit =
           (Inl e, True,
            b\<lparr>is_open := (failure_threshold b \<le> 1), failure_count := 1,
              last_failure_time := Some t_exit\<rparr>)"
  using aenter_after_timeout[OF assms(1-3)] assms(4)
  by (simp add: guarded_call_def aexit_def Let_def)

lemma tripped_breaker_eq:
  "tripped_breaker =
     \<lparr> failure_threshold = 3, recovery_timeout = 60,
       expected_exception = is_LLMProviderError, failure_count = 3,
       last_failure_time = Some 5, is_open = True \<rparr>"
  by (simp add: tripped_breaker_def three_failures_def CircuitBreaker_def guarded_call_def
      aenter_def aexit_def Let_def)


lemma guarded_call_closed_runs:
  assumes "\<not> is_open b"
  shows "fst (guarded_call b now body t_exit) = body"
    and "fst (snd (guarded_call b now body t_exit))"
  using assms by (simp_all add: guarded_call_def aenter_def)

text \<open>
  Consecutive qualifying failures that stay below the threshold leave the breaker
  closed and are all counted.
\<close>

lemma run_failures_below:
  assumes "\<not> is_open b"
    and "failure_count b + int (length cs) < failure_threshold b"
    and "list_all (\<lambda>c. expected_exception b (fst (snd c))) cs"
  shows "\<not> is_open (run_failures b cs)
         \<and> failure_count (run_failures b cs) = failure_count b + int (length cs)"
  using assms
proof (induction cs arbitrary: b)
  case Nil
  then show ?case by simp
next
  case (Cons c cs)
  obtain t1 e t2 where c: "c = (t1, e, t2)" by (cases c) auto
  let ?b' = "b\<lparr>failure_count := failure_count b + 1, last_failure_time := Some t2,
              is_open := (failure_count b + 1 \<ge> failure_threshold b)\<rparr>"
  have e: "expected_exception b e" using Cons.prems(3) c by simp
  have gc: "guarded_call b t1 (Inl e :: exn + unit) t2 = (Inl e, True, ?b')"
    by (rule guarded_call_closed_failure[OF Cons.prems(1) e])
  have step: "run_failures b (c # cs) = run_failures ?b' cs"
    using gc c by simp
  have "\<not> is_open (run_failures ?b' cs)
         \<and> failure_count (run_failures ?b' cs) = failure_count ?b' + int (length cs)"
  proof (rule Cons.IH)
    show "\<not> is_open ?b'" using Cons.prems(2) by simp
    show "failure_count ?b' + int (length cs) < failure_threshold ?b'"
      using Cons.prems(2) by simp
    show "list_all (\<lambda>c. expected_exception ?b' (fst (snd c))) cs"
      using Cons.prems(3) by simp
  qed
  then show ?case using step by simp
qed

text \<open>
  A run of failures that starts with the first call after the recovery timeout: the
  entry of that call restarts the count, so the run is the run of the remaining
  failures from a closed breaker (an open one, when the threshold is at most 1) with
  \<open>failure_count = 1\<close>.
\<close>

lemma trial_run_step:
  assumes "is_open b" and "last_failure_time b = Some t"
    and "now - t \<ge> real_of_int (recovery_timeout b)"
    and "expected_exception b e"
  shows "run_failures b ((now, e, t_exit) # rest) =
           run_failures
             (b\<lparr>is_open := (failure_threshold b \<le> 1), failure_count := 1,
                last_failure_time := Some t_exit\<rparr>) rest"
  using guarded_call_trial_failure[OF assms, of t_exit, where 'a = unit] by simp

lemma trial_run_stays_closed:
  assumes "is_open b" and "last_failure_time b = Some t"
    and "now - t \<ge> real_of_int (recovery_timeout b)"
    and "expected_exception b e"
    and "list_all (\<lambda>c. expected_exception b (fst (snd c))) rest"
    and "1 + int (length rest) < failure_threshold b"
  shows "\<not> is_open (run_failures b ((now, e, t_exit) # rest))"
proof -
  let ?b1 = "b\<lparr>is_open := (failure_threshold b \<le> 1), failure_count := 1,
                last_failure_time := Some t_exit\<rparr>"
  have "\<not> is_open (run_failures ?b1 rest)
         \<and> failure_count (run_failures ?b1 rest) = failure_count ?b1 + int (length rest)"
    by (rule run_failures_below) (use assms(5,6) in simp_all)
  then show ?thesis unfolding trial_run_step[OF assms(1-4)] by simp
qed

lemma trial_run_reopens:
  assumes "is_open b" and "last_failure_time b = Some t"
    and "now - t \<ge> real_of_int (recovery_timeout b)"
    and "expected_exception b e"
    and "list_all (\<lambda>c. expected_exception b (fst (snd c))) rest"
    and "1 + int (length rest) = failure_threshold b"
  shows "is_open (run_failures b ((now, e, t_exit) # rest))"
proof -
  let ?b1 = "b\<lparr>is_open := (failure_threshold b \<le> 1), failure_count := 1,
                last_failure_time := Some t_exit\<rparr>"
  show ?thesis
  proof (cases "rest = []")
    case True
    then show ?thesis unfolding trial_run_step[OF assms(1-4)] using assms(6) by simp
  next
    case False
    have "is_open (run_failures ?b1 rest)"
    proof (rule run_failures_count)
      show "\<not> is_open ?b1" using assms(6) False by (cases rest) auto
      show "0 \<le> failure_count ?b1" by simp
      show "failure_count ?b1 + int (length rest) = failure_threshold ?b1"
        using assms(6) by simp
      show "rest \<noteq> []" by (rule False)
      show "list_all (\<lambda>c. expected_exception ?b1 (fst (snd c))) rest"
        using assms(5) by simp
    qed
    then show ?thesis unfolding trial_run_step[OF assms(1-4)] .
  qed
qed


section \<open>Rate limiter: lemmas\<close>

lemma prune_sorted: "sorted h \<Longrightarrow> prune c h = filter (\<lambda>t. c < t) h"
proof (induction h)
  case Nil then show ?case by simp
next
  case (Cons x xs)
  show ?case
  proof (cases "x \<le> c")
    case True
    then show ?thesis using Cons by simp
  next
    case False
    then have "\<forall>y\<in>set (x # xs). c < y" using Cons.prems by auto
    then have "filter (\<lambda>t. c < t) (x # xs) = x # xs" by (simp only: filter_True)
    with False show ?thesis by simp
  qed
qed

lemma length_filter_mono:
  "(\<And>x. x \<in> set xs \<Longrightarrow> P x \<Longrightarrow> Q x) \<Longrightarrow> length (filter P xs) \<le> length (filter Q xs)"
  by (induction xs) auto


lemma is_allowed_verdict:
  "fst (fst (is_allowed rh i L W now)) = (int (length (prune (now - real_of_int W) (rh i))) < L)"
  by (simp add: is_allowed_def Let_def)

lemma is_allowed_history:
  "snd (is_allowed rh i L W now) =
     rh(i := (if int (length (prune (now - real_of_int W) (rh i))) < L
              then prune (now - real_of_int W) (rh i) @ [now]
              else prune (now - real_of_int W) (rh i)))"
  by (simp add: is_allowed_def Let_def)

lemma run_requests_Cons:
  "run_requests rh i L W (t # ts) =
     (t, fst (is_allowed rh i L W t)) # run_requests (snd (is_allowed rh i L W t)) i L W ts"
  by (simp add: case_prod_beta)

lemma admitted_times_Cons:
  "admitted_times ((t, res) # rs) =
     (if fst res then t # admitted_times rs else admitted_times rs)"
  by (simp add: admitted_times_def)

lemma sliding_invariant:
  assumes "0 < W" and "sorted ts" and "sorted A"
    and "\<forall>x\<in>set A. \<forall>t\<in>set ts. x \<le> t"
    and "rh i = filter (\<lambda>x. c < x) A"
    and "\<forall>t\<in>set ts. c \<le> t - real_of_int W"
    and "\<forall>a. int (in_window W a A) \<le> L"
  shows "int (in_window W a (A @ admitted_times (run_requests rh i L W ts))) \<le> L"
  using assms
proof (induction ts arbitrary: rh A c)
  case Nil
  then show ?case by (simp add: admitted_times_def)
next
  case (Cons t ts)
  let ?c' = "t - real_of_int W"
  let ?h = "prune ?c' (rh i)"
  let ?ok = "int (length ?h) < L"
  let ?rh' = "snd (is_allowed rh i L W t)"
  have sorted_h: "sorted (rh i)" using Cons.prems(3,5) by (simp add: sorted_wrt_filter)
  have cc': "c \<le> ?c'" using Cons.prems(6) by simp
  have h_eq: "?h = filter (\<lambda>x. ?c' < x) A"
    using prune_sorted[OF sorted_h, of ?c'] Cons.prems(5) cc'
    by (auto intro!: filter_cong)
  have ts_sorted: "sorted ts" using Cons.prems(2) by simp
  have later: "\<forall>t'\<in>set ts. ?c' \<le> t' - real_of_int W" using Cons.prems(2) by auto
  show ?case
  proof (cases ?ok)
    case True
    let ?A' = "A @ [t]"
    have run: "A @ admitted_times (run_requests rh i L W (t # ts))
                 = ?A' @ admitted_times (run_requests ?rh' i L W ts)"
      using True by (simp add: run_requests_Cons admitted_times_Cons is_allowed_verdict
          del: run_requests.simps(2))
    have rh': "?rh' i = filter (\<lambda>x. ?c' < x) ?A'"
      using True h_eq Cons.prems(1) by (simp add: is_allowed_history)
    have sorted_A': "sorted ?A'"
      using Cons.prems(3,4) by (simp add: sorted_append)
    have le': "\<forall>x\<in>set ?A'. \<forall>t'\<in>set ts. x \<le> t'"
      using Cons.prems(2,4) by auto
    have bound': "\<forall>a. int (in_window W a ?A') \<le> L"
    proof
      fix a
      show "int (in_window W a ?A') \<le> L"
      proof (cases "a < t \<and> t \<le> a + real_of_int W")
        case False
        then have "in_window W a ?A' = in_window W a A" by (auto simp: in_window_def)
        then show ?thesis using Cons.prems(7) by simp
      next
        case inw: True
        have "length (filter (\<lambda>x. a < x \<and> x \<le> a + real_of_int W) A)
                \<le> length (filter (\<lambda>x. ?c' < x) A)"
          by (rule length_filter_mono) (use inw in auto)
        then have "in_window W a A \<le> length ?h" by (simp add: in_window_def h_eq)
        moreover have "in_window W a ?A' = in_window W a A + 1"
          using inw by (simp add: in_window_def)
        ultimately show ?thesis using True by simp
      qed
    qed
    show ?thesis
      unfolding run
      by (rule Cons.IH[where A = ?A' and rh = ?rh' and c = ?c',
            OF Cons.prems(1) ts_sorted sorted_A' le' rh' later bound'])
  next
    case False
    have run: "A @ admitted_times (run_requests rh i L W (t # ts))
                 = A @ admitted_times (run_requests ?rh' i L W ts)"
      using False by (simp add: run_requests_Cons admitted_times_Cons is_allowed_verdict
          del: run_requests.simps(2))
    have rh': "?rh' i = filter (\<lambda>x. ?c' < x) A"
      using False h_eq by (simp add: is_allowed_history)
    have le': "\<forall>x\<in>set A. \<forall>t'\<in>set ts. x \<le> t'"
      using Cons.prems(4) by auto
    show ?thesis
      unfolding run
      by (rule Cons.IH[where A = A and rh = ?rh' and c = ?c',
            OF Cons.prems(1) ts_sorted Cons.prems(3) le' rh' later Cons.prems(7)])
  qed
qed

lemma sliding_window_bound:
  assumes "sorted ts" and "0 \<le> L"
  shows "int (in_window W a (admitted_times (run_requests (\<lambda>_. []) i L W ts))) \<le> L"
proof (cases "0 < W")
  case True
  have "\<forall>t\<in>set ts. hd ts - real_of_int W \<le> t - real_of_int W"
    using assms(1) by (cases ts) auto
  then have "int (in_window W a ([] @ admitted_times (run_requests (\<lambda>_. []) i L W ts))) \<le> L"
    by (intro sliding_invariant[where c = "hd ts - real_of_int W", OF True assms(1)])
       (use assms(2) in \<open>simp_all add: in_window_def\<close>)
  then show ?thesis by simp
next
  case False
  then have "in_window W a xs = 0" for xs
    by (auto simp: in_window_def filter_empty_conv)
  then show ?thesis using assms(2) by simp
qed


lemma prune_all_live: "\<forall>x\<in>set h. c < x \<Longrightarrow> prune c h = h"
  by (cases h) auto

lemma retry_after_positive: "1 \<le> info_retry_after (snd (fst (is_allowed rh i L W now)))"
  by (simp add: is_allowed_def Let_def)

lemma burst_then_denied:
  assumes "\<forall>x\<in>set (rh i). T - real_of_int W < x"
    and "\<forall>t\<in>set ts. T - real_of_int W < t \<and> t \<le> T"
    and "int (length (rh i)) + int (length ts) = L"
    and "t_last \<le> T"
  shows "map (\<lambda>r. fst (snd r)) (run_requests rh i L W (ts @ [t_last]))
           = replicate (length ts) True @ [False]"
  using assms
proof (induction ts arbitrary: rh)
  case Nil
  have "prune (t_last - real_of_int W) (rh i) = rh i"
    by (rule prune_all_live) (use Nil.prems(1,4) in force)
  then show ?case using Nil.prems(3)
    by (simp add: run_requests_Cons is_allowed_verdict del: run_requests.simps(2))
next
  case (Cons t ts)
  let ?rh' = "snd (is_allowed rh i L W t)"
  have keep: "prune (t - real_of_int W) (rh i) = rh i"
    by (rule prune_all_live) (use Cons.prems(1,2) in force)
  have ok: "fst (fst (is_allowed rh i L W t))"
    using keep Cons.prems(3) by (simp add: is_allowed_verdict)
  have rh': "?rh' i = rh i @ [t]"
    using keep Cons.prems(3) by (simp add: is_allowed_history)
  have "map (\<lambda>r. fst (snd r)) (run_requests ?rh' i L W (ts @ [t_last]))
          = replicate (length ts) True @ [False]"
  proof (rule Cons.IH)
    show "\<forall>x\<in>set (?rh' i). T - real_of_int W < x" using rh' Cons.prems(1,2) by auto
    show "\<forall>t\<in>set ts. T - real_of_int W < t \<and> t \<le> T" using Cons.prems(2) by auto
    show "int (length (?rh' i)) + int (length ts) = L" using rh' Cons.prems(3) by simp
    show "t_last \<le> T" by (rule Cons.prems(4))
  qed
  then show ?case using ok
    by (simp add: run_requests_Cons del: run_requests.simps(2))
qed

lemma run_requests_retry_after:
  "list_all (\<lambda>r. 1 \<le> info_retry_after (snd (snd r))) (run_requests rh i L W ts)"
  by (induction ts arbitrary: rh)
     (simp_all add: run_requests_Cons retry_after_positive del: run_requests.simps(2))

lemma run_requests_length: "length (run_requests rh i L W ts) = length ts"
  by (induction ts arbitrary: rh) (simp_all add: case_prod_beta)

lemma over_limit_denied:
  assumes "sorted ts" and "0 \<le> L" and "length ts = nat L + 1"
    and "last ts - hd ts < real_of_int W"
  shows "map (\<lambda>r. fst (snd r)) (run_requests (\<lambda>_. []) i L W ts) = replicate (nat L) True @ [False]
         \<and> 0 < info_retry_after (snd (snd (last (run_requests (\<lambda>_. []) i L W ts))))"
proof -
  have ne: "ts \<noteq> []" using assms(3) by auto
  then have split: "ts = butlast ts @ [last ts]" by simp
  have bounds: "\<forall>t\<in>set ts. hd ts \<le> t \<and> t \<le> last ts"
  proof
    fix t assume t: "t \<in> set ts"
    then obtain k where k: "k < length ts" "ts ! k = t" by (auto simp: in_set_conv_nth)
    have "ts ! 0 \<le> ts ! k" using assms(1) k by (auto simp: sorted_iff_nth_mono)
    moreover have "ts ! k \<le> ts ! (length ts - 1)"
      using assms(1) k by (auto simp: sorted_iff_nth_mono)
    ultimately show "hd ts \<le> t \<and> t \<le> last ts"
      using ne k by (simp add: hd_conv_nth last_conv_nth)
  qed
  have "map (\<lambda>r. fst (snd r)) (run_requests (\<lambda>_. []) i L W (butlast ts @ [last ts]))
          = replicate (length (butlast ts)) True @ [False]"
  proof (rule burst_then_denied[where T = "last ts"])
    show "\<forall>x\<in>set ((\<lambda>_. []) i). last ts - real_of_int W < x" by simp
    show "\<forall>t\<in>set (butlast ts). last ts - real_of_int W < t \<and> t \<le> last ts"
    proof
      fix t assume "t \<in> set (butlast ts)"
      then have "t \<in> set ts" by (rule in_set_butlastD)
      then have "hd ts \<le> t \<and> t \<le> last ts" using bounds by blast
      then show "last ts - real_of_int W < t \<and> t \<le> last ts" using assms(4) by linarith
    qed
    show "int (length ((\<lambda>_. []) i :: real list)) + int (length (butlast ts)) = L"
      using assms(2,3) by simp
    show "last ts \<le> last ts" by simp
  qed
  then have verdicts: "map (\<lambda>r. fst (snd r)) (run_requests (\<lambda>_. []) i L W ts)
          = replicate (nat L) True @ [False]"
    using split assms(3) by simp
  have "run_requests (\<lambda>_. []) i L W ts \<noteq> []"
    using ne run_requests_length[of "\<lambda>_. []" i L W ts] by auto
  then have "last (run_requests (\<lambda>_. []) i L W ts) \<in> set (run_requests (\<lambda>_. []) i L W ts)"
    by simp
  then have "1 \<le> info_retry_after (snd (snd (last (run_requests (\<lambda>_. []) i L W ts))))"
    using run_requests_retry_after[of "\<lambda>_. []" i L W ts] by (simp add: list_all_iff)
  with verdicts show ?thesis by simp
qed


lemma is_allowed_other_key:
  "j \<noteq> i \<Longrightarrow> fst (is_allowed (snd (is_allowed rh i L W now)) j L' W' now')
            = fst (is_allowed rh j L' W' now')"
  by (simp add: is_allowed_def Let_def)

lemma check_rate_limits_eq:
  "check_rate_limits rh identifier lims t_minute t_hour =
     (let m = is_allowed rh (identifier @ '':minute'') (requests_per_minute lims) 60 t_minute;
          h = is_allowed rh (identifier @ '':hour'') (requests_per_hour lims) 3600 t_hour;
          limit_info = (if \<not> fst (fst m) then snd (fst m)
              else if \<not> fst (fst h) then snd (fst h) else snd (fst m));
          window = (if \<not> fst (fst m) then ''minute''
              else if \<not> fst (fst h) then ''hour'' else ''minute'')
      in (\<lparr> result_allowed = (fst (fst m) \<and> fst (fst h)),
             result_limit = info_limit limit_info,
             result_remaining = info_remaining limit_info,
             result_reset = info_reset limit_info,
             result_retry_after = info_retry_after limit_info,
             result_window = window \<rparr>,
          (rh(identifier @ '':minute'' := snd m (identifier @ '':minute'')))
               (identifier @ '':hour'' := snd h (identifier @ '':hour''))))"
proof -
  let ?m = "is_allowed rh (identifier @ '':minute'') (requests_per_minute lims) 60 t_minute"
  let ?h = "is_allowed rh (identifier @ '':hour'') (requests_per_hour lims) 3600 t_hour"
  let ?hh = "is_allowed (snd ?m) (identifier @ '':hour'') (requests_per_hour lims) 3600 t_hour"
  have hk: "fst ?hh = fst ?h"
    by (rule is_allowed_other_key) simp
  have hs: "snd ?hh = (rh(identifier @ '':minute'' := snd ?m (identifier @ '':minute'')))
                  (identifier @ '':hour'' := snd ?h (identifier @ '':hour''))"
    by (simp add: is_allowed_def Let_def)
  have "check_rate_limits rh identifier lims t_minute t_hour =
     (let limit_info = (if \<not> fst (fst ?m) then snd (fst ?m)
              else if \<not> fst (fst ?hh) then snd (fst ?hh) else snd (fst ?m));
          window = (if \<not> fst (fst ?m) then ''minute''
              else if \<not> fst (fst ?hh) then ''hour'' else ''minute'')
      in (\<lparr> result_allowed = (fst (fst ?m) \<and> fst (fst ?hh)),
             result_limit = info_limit limit_info,
             result_remaining = info_remaining limit_info,
             result_reset = info_reset limit_info,
             result_retry_after = info_retry_after limit_info,
             result_window = window \<rparr>, snd ?hh))"
    unfolding check_rate_limits_def
    by (simp add: case_prod_beta Let_def)
  then show ?thesis
    unfolding hk hs by (simp add: Let_def)
qed

text \<open>
  The verdict of the dual-window check is the conjunction of the two windows' verdicts;
  a denial carries the minute window's metadata when the minute window denies, and the
  hour window's otherwise.
\<close>

lemma check_rate_limits_verdict:
  "(let m = is_allowed rh (ident @ '':minute'') (requests_per_minute lims) 60 t_minute;
        h = is_allowed rh (ident @ '':hour'') (requests_per_hour lims) 3600 t_hour;
        res = fst (check_rate_limits rh ident lims t_minute t_hour)
    in result_allowed res = (fst (fst m) \<and> fst (fst h))
       \<and> (\<not> result_allowed res \<longrightarrow>
            (if \<not> fst (fst m)
             then metadata_of res = snd (fst m) \<and> result_window res = ''minute''
             else \<not> fst (fst h) \<and> metadata_of res = snd (fst h)
                  \<and> result_window res = ''hour'')))"
  by (simp add: check_rate_limits_eq Let_def metadata_of_def)


section \<open>Memory cache: lemmas\<close>

lemma od_delitem_keys: "map fst (od_delitem d k) = filter (\<lambda>k'. k' \<noteq> k) (map fst d)"
  by (induction d) (auto simp: od_delitem_def)

lemma od_delitem_absent: "k \<notin> set (map fst d) \<Longrightarrow> od_delitem d k = d"
  by (induction d) (auto simp: od_delitem_def)

lemma od_delitem_length:
  "distinct (map fst d) \<Longrightarrow> k \<in> set (map fst d) \<Longrightarrow> length (od_delitem d k) + 1 = length d"
proof (induction d)
  case Nil
  then show ?case by simp
next
  case (Cons kv d)
  show ?case
  proof (cases "fst kv = k")
    case True
    then have "k \<notin> set (map fst d)" using Cons.prems(1) by auto
    then have "od_delitem d k = d" by (rule od_delitem_absent)
    then show ?thesis using True by (simp add: od_delitem_def)
  next
    case False
    then have "length (od_delitem d k) + 1 = length d" using Cons by auto
    then show ?thesis using False by (simp add: od_delitem_def)
  qed
qed

lemma od_delitem_head:
  "d \<noteq> [] \<Longrightarrow> distinct (map fst d) \<Longrightarrow> od_delitem d (fst (hd d)) = tl d"
proof (cases d)
  case Nil
  then show "d \<noteq> [] \<Longrightarrow> ?thesis" by simp
next
  case (Cons kv d')
  assume "distinct (map fst d)"
  then have "fst kv \<notin> set (map fst d')" using Cons by simp
  then have "od_delitem d' (fst kv) = d'" by (rule od_delitem_absent)
  then show ?thesis using Cons by (simp add: od_delitem_def)
qed

lemma od_delitem_distinct: "distinct (map fst d) \<Longrightarrow> distinct (map fst (od_delitem d k))"
  by (simp add: od_delitem_keys)

lemma map_of_od_delitem: "map_of (od_delitem d k) k = None"
  by (induction d) (auto simp: od_delitem_def)

lemma od_touch:
  "od_setitem (od_delitem d k @ [(k, e)]) k e' = od_delitem d k @ [(k, e')]"
proof -
  have "map (\<lambda>kv. if fst kv = k then (k, e') else kv) (od_delitem d k) = od_delitem d k"
    by (induction d) (auto simp: od_delitem_def)
  then show ?thesis by (simp add: od_setitem_def od_contains_def)
qed

lemma od_move_to_end_present:
  "map_of d k = Some e \<Longrightarrow> od_move_to_end d k = od_delitem d k @ [(k, e)]"
  by (simp add: od_move_to_end_def)

lemma od_store:
  "od_move_to_end (od_setitem d k e) k = od_delitem d k @ [(k, e)]"
proof (cases "od_contains d k")
  case True
  let ?d' = "map (\<lambda>kv. if fst kv = k then (k, e) else kv) d"
  have m: "map_of ?d' k = Some e"
    using True by (induction d) (auto simp: od_contains_def)
  have "od_delitem ?d' k = od_delitem d k"
    by (induction d) (auto simp: od_delitem_def)
  then show ?thesis using True m by (simp add: od_setitem_def od_move_to_end_def)
next
  case False
  then have absent: "k \<notin> set (map fst d)" by (simp add: od_contains_def)
  then have "map_of d k = None" by (simp add: map_of_eq_None_iff)
  then have "map_of (d @ [(k, e)]) k = Some e" by (simp add: map_add_def)
  moreover have "od_delitem (d @ [(k, e)]) k = d"
    using od_delitem_absent[OF absent] by (simp add: od_delitem_def)
  ultimately show ?thesis
    using False od_delitem_absent[OF absent] by (simp add: od_setitem_def od_move_to_end_def)
qed

lemma get_summary_hit:
  assumes "map_of (cache mc) k = Some e" and "\<not> is_expired e now"
  shows "fst (get_summary mc k now) = Some (entry_value e)"
    and "cache (snd (get_summary mc k now)) =
           od_delitem (cache mc) k @ [(k, e\<lparr>access_count := access_count e + 1, last_accessed := now\<rparr>)]"
    and "max_size (snd (get_summary mc k now)) = max_size mc"
  using assms by (simp_all add: get_summary_def access_def od_move_to_end_present od_touch)

lemma get_summary_expired:
  assumes "map_of (cache mc) k = Some e" and "is_expired e now"
  shows "fst (get_summary mc k now) = None"
    and "cache (snd (get_summary mc k now)) = od_delitem (cache mc) k"
    and "max_size (snd (get_summary mc k now)) = max_size mc"
  using assms by (simp_all add: get_summary_def)

lemma get_summary_miss:
  assumes "map_of (cache mc) k = None"
  shows "fst (get_summary mc k now) = None"
    and "cache (snd (get_summary mc k now)) = cache mc"
    and "max_size (snd (get_summary mc k now)) = max_size mc"
  using assms by (simp_all add: get_summary_def)

lemma set_summary_cache:
  "cache (snd (set_summary mc k v ttl now)) =
     od_delitem
       (if \<not> od_contains (cache mc) k \<and> int (length (cache mc)) \<ge> max_size mc
        then cache (evict_lru mc) else cache mc) k
     @ [(k, CacheEntry v (ttl_seconds_of mc ttl) now)]"
  by (simp add: set_summary_def Let_def od_store ttl_seconds_of_def)

lemma set_summary_max_size: "max_size (snd (set_summary mc k v ttl now)) = max_size mc"
  by (simp add: set_summary_def Let_def evict_lru_def)

lemma evict_lru_cache:
  "distinct (map fst (cache mc)) \<Longrightarrow> cache (evict_lru mc) = tl (cache mc)"
  by (cases "cache mc = []") (simp_all add: evict_lru_def Let_def od_delitem_head)

lemma map_of_present: "map_of d k = Some e \<Longrightarrow> k \<in> set (map fst d)"
  by (metis domI dom_map_of_conv_image_fst set_map)

lemma touch_inv:
  assumes "distinct (map fst d)" and "k \<in> set (map fst d)"
  shows "distinct (map fst (od_delitem d k @ [(k, e)]))"
    and "length (od_delitem d k @ [(k, e)]) = length d"
  using assms od_delitem_length[OF assms] by (simp_all add: od_delitem_keys)

lemma get_summary_inv:
  assumes "cache_inv mc"
  shows "cache_inv (snd (get_summary mc k now))"
proof (cases "map_of (cache mc) k")
  case None
  then show ?thesis using assms by (simp add: cache_inv_def get_summary_miss)
next
  case (Some e)
  show ?thesis
  proof (cases "is_expired e now")
    case True
    have "length (od_delitem (cache mc) k) \<le> length (cache mc)"
      by (simp add: od_delitem_def)
    then show ?thesis
      using assms get_summary_expired[OF Some True]
      by (simp add: cache_inv_def od_delitem_distinct)
  next
    case False
    have k: "k \<in> set (map fst (cache mc))" using Some by (rule map_of_present)
    have d: "distinct (map fst (cache mc))" using assms by (simp add: cache_inv_def)
    show ?thesis
      using assms get_summary_hit[OF Some False] touch_inv[OF d k]
      by (simp add: cache_inv_def)
  qed
qed

lemma set_summary_inv:
  assumes "cache_inv mc" and "0 < max_size mc"
  shows "cache_inv (snd (set_summary mc k v ttl now))"
proof -
  have d: "distinct (map fst (cache mc))" and le: "int (length (cache mc)) \<le> max_size mc"
    using assms(1) by (simp_all add: cache_inv_def)
  let ?e = "CacheEntry v (ttl_seconds_of mc ttl) now"
  show ?thesis
  proof (cases "od_contains (cache mc) k")
    case True
    then have k: "k \<in> set (map fst (cache mc))" by (simp add: od_contains_def)
    have "cache (snd (set_summary mc k v ttl now)) = od_delitem (cache mc) k @ [(k, ?e)]"
      using True by (simp add: set_summary_cache)
    then show ?thesis
      using touch_inv[OF d k, of ?e] le by (simp add: cache_inv_def set_summary_max_size)
  next
    case False
    then have k: "k \<notin> set (map fst (cache mc))" by (simp add: od_contains_def)
    show ?thesis
    proof (cases "int (length (cache mc)) \<ge> max_size mc")
      case full: True
      then have ne: "cache mc \<noteq> []" using assms(2) by auto
      have k': "k \<notin> set (map fst (tl (cache mc)))"
        using k ne by (cases "cache mc") auto
      have "cache (snd (set_summary mc k v ttl now)) = tl (cache mc) @ [(k, ?e)]"
        using False full by (simp add: set_summary_cache evict_lru_cache[OF d] od_delitem_absent[OF k'])
      moreover have "distinct (map fst (tl (cache mc)))"
        using d by (simp add: map_tl distinct_tl)
      ultimately show ?thesis
        using k' ne le by (simp add: cache_inv_def set_summary_max_size)
    next
      case room: False
      have "cache (snd (set_summary mc k v ttl now)) = cache mc @ [(k, ?e)]"
        using False room by (simp add: set_summary_cache od_delitem_absent[OF k])
      then show ?thesis
        using d k room by (simp add: cache_inv_def set_summary_max_size)
    qed
  qed
qed

lemma get_summary_max_size: "max_size (snd (get_summary mc k now)) = max_size mc"
  by (simp add: get_summary_def access_def split: option.splits)

lemma apply_op_inv:
  "cache_inv mc \<Longrightarrow> 0 < max_size mc \<Longrightarrow> cache_inv (apply_op mc x)"
  by (cases x) (simp_all add: get_summary_inv set_summary_inv)

lemma apply_op_max_size: "max_size (apply_op mc x) = max_size mc"
  by (cases x) (simp_all add: get_summary_max_size set_summary_max_size)

lemma run_ops_inv:
  "cache_inv mc \<Longrightarrow> 0 < max_size mc
     \<Longrightarrow> cache_inv (run_ops mc xs) \<and> max_size (run_ops mc xs) = max_size mc"
  by (induction xs arbitrary: mc) (simp_all add: apply_op_inv apply_op_max_size)

lemma set_summary_evicts_head:
  assumes "cache_inv mc" and "0 < max_size mc"
    and "\<not> od_contains (cache mc) k" and "int (length (cache mc)) = max_size mc"
  shows "cache (snd (set_summary mc k v ttl now)) =
           tl (cache mc) @ [(k, CacheEntry v (ttl_seconds_of mc ttl) now)]"
proof -
  have d: "distinct (map fst (cache mc))" using assms(1) by (simp add: cache_inv_def)
  have ne: "cache mc \<noteq> []" using assms(2,4) by auto
  have "k \<notin> set (map fst (cache mc))" using assms(3) by (simp add: od_contains_def)
  then have k': "k \<notin> set (map fst (tl (cache mc)))" using ne by (cases "cache mc") auto
  show ?thesis
    using assms(3,4)
    by (simp add: set_summary_cache evict_lru_cache[OF d] od_delitem_absent[OF k'])
qed

lemma recency_filter:
  assumes "sorted (map (\<lambda>kv. last_accessed (snd kv)) d)"
    and "list_all (\<lambda>kv. last_accessed (snd kv) \<le> t) d"
  shows "sorted (map (\<lambda>kv. last_accessed (snd kv)) (od_delitem d k))"
    and "list_all (\<lambda>kv. last_accessed (snd kv) \<le> t) (od_delitem d k)"
  using assms by (simp_all add: od_delitem_def sorted_filter list_all_iff)

lemma recency_touch:
  assumes "sorted (map (\<lambda>kv. last_accessed (snd kv)) d)"
    and "list_all (\<lambda>kv. last_accessed (snd kv) \<le> t) d"
    and "t \<le> now" and "last_accessed e = now"
  shows "sorted (map (\<lambda>kv. last_accessed (snd kv)) (od_delitem d k @ [(k, e)]))"
    and "list_all (\<lambda>kv. last_accessed (snd kv) \<le> now) (od_delitem d k @ [(k, e)])"
proof -
  have a: "sorted (map (\<lambda>kv. last_accessed (snd kv)) (od_delitem d k))"
    and b: "list_all (\<lambda>kv. last_accessed (snd kv) \<le> t) (od_delitem d k)"
    using recency_filter[OF assms(1,2)] by simp_all
  from b have c: "list_all (\<lambda>kv. last_accessed (snd kv) \<le> now) (od_delitem d k)"
    using assms(3) by (auto simp: list_all_iff)
  show "sorted (map (\<lambda>kv. last_accessed (snd kv)) (od_delitem d k @ [(k, e)]))"
    using a c assms(4) by (auto simp: sorted_append list_all_iff)
  show "list_all (\<lambda>kv. last_accessed (snd kv) \<le> now) (od_delitem d k @ [(k, e)])"
    using c assms(4) by simp
qed

lemma recency_weaken:
  "recency_sorted mc t \<Longrightarrow> t \<le> t' \<Longrightarrow> recency_sorted mc t'"
  by (auto simp: recency_sorted_def list_all_iff)

lemma get_summary_recency:
  assumes "recency_sorted mc t" and "t \<le> now"
  shows "recency_sorted (snd (get_summary mc k now)) now"
proof (cases "map_of (cache mc) k")
  case None
  then show ?thesis
    using recency_weaken[OF assms] by (simp add: recency_sorted_def get_summary_miss)
next
  case (Some e)
  have s: "sorted (map (\<lambda>kv. last_accessed (snd kv)) (cache mc))"
    and l: "list_all (\<lambda>kv. last_accessed (snd kv) \<le> t) (cache mc)"
    using assms(1) by (simp_all add: recency_sorted_def)
  show ?thesis
  proof (cases "is_expired e now")
    case True
    have "list_all (\<lambda>kv. last_accessed (snd kv) \<le> now) (od_delitem (cache mc) k)"
      using recency_filter(2)[OF s l, of k] assms(2) by (auto simp: list_all_iff)
    then show ?thesis
      using recency_filter(1)[OF s l, of k] get_summary_expired[OF Some True]
      by (simp add: recency_sorted_def)
  next
    case False
    show ?thesis
      using recency_touch[OF s l assms(2),
          of "e\<lparr>access_count := access_count e + 1, last_accessed := now\<rparr>" k]
        get_summary_hit[OF Some False]
      by (simp add: recency_sorted_def)
  qed
qed

lemma set_summary_recency:
  assumes "recency_sorted mc t" and "t \<le> now"
  shows "recency_sorted (snd (set_summary mc k v ttl now)) now"
proof -
  have s: "sorted (map (\<lambda>kv. last_accessed (snd kv)) (cache mc))"
    and l: "list_all (\<lambda>kv. last_accessed (snd kv) \<le> t) (cache mc)"
    using assms(1) by (simp_all add: recency_sorted_def)
  let ?d1 = "if \<not> od_contains (cache mc) k \<and> int (length (cache mc)) \<ge> max_size mc
        then cache (evict_lru mc) else cache mc"
  have "cache (evict_lru mc) = cache mc
        \<or> cache (evict_lru mc) = od_delitem (cache mc) (fst (hd (cache mc)))"
    by (simp add: evict_lru_def Let_def)
  then have s1: "sorted (map (\<lambda>kv. last_accessed (snd kv)) ?d1)"
    and l1: "list_all (\<lambda>kv. last_accessed (snd kv) \<le> t) ?d1"
    using s l recency_filter[OF s l, of "fst (hd (cache mc))"] by auto
  have la: "last_accessed (CacheEntry v (ttl_seconds_of mc ttl) now) = now"
    by (simp add: CacheEntry_def)
  show ?thesis
    using recency_touch[OF s1 l1 assms(2) la, of k]
    by (simp add: recency_sorted_def set_summary_cache)
qed

lemma apply_op_recency:
  "recency_sorted mc t \<Longrightarrow> t \<le> op_time x \<Longrightarrow> recency_sorted (apply_op mc x) (op_time x)"
  by (cases x) (simp_all add: get_summary_recency set_summary_recency)

lemma run_ops_recency:
  assumes "sorted (map op_time xs)" and "recency_sorted mc t"
    and "list_all (\<lambda>x. t \<le> op_time x) xs"
  shows "sorted (map (\<lambda>kv. last_accessed (snd kv)) (cache (run_ops mc xs)))"
  using assms
proof (induction xs arbitrary: mc t)
  case Nil
  then show ?case by (simp add: recency_sorted_def)
next
  case (Cons x xs)
  have "recency_sorted (apply_op mc x) (op_time x)"
    using Cons.prems(2,3) by (simp add: apply_op_recency)
  moreover have "list_all (\<lambda>y. op_time x \<le> op_time y) xs"
    using Cons.prems(1) by (simp add: list_all_iff)
  moreover have "sorted (map op_time xs)" using Cons.prems(1) by simp
  ultimately show ?case using Cons.IH by simp
qed

lemma run_ops_recency_init:
  assumes "sorted (map op_time xs)"
  shows "sorted (map (\<lambda>kv. last_accessed (snd kv)) (cache (run_ops (MemoryCacheService C dttl) xs)))"
proof (cases xs)
  case Nil
  then show ?thesis by (simp add: MemoryCacheService_def)
next
  case (Cons x xs')
  have a: "list_all (\<lambda>y. op_time x \<le> op_time y) xs"
    using assms Cons by (simp add: list_all_iff)
  have b: "recency_sorted (MemoryCacheService C dttl) (op_time x)"
    by (simp add: recency_sorted_def MemoryCacheService_def)
  show ?thesis by (rule run_ops_recency[OF assms b a])
qed

lemma map_of_after_set:
  "map_of (cache (snd (set_summary mc k v ttl now))) k
     = Some (CacheEntry v (ttl_seconds_of mc ttl) now)"
  by (simp add: set_summary_cache map_add_def map_of_od_delitem)

lemma py_int_whole_seconds: "py_int (total_seconds (timedelta_seconds n)) = n"
  by (simp add: py_int_def total_seconds_def timedelta_seconds_def)

lemma cache_inv_init: "0 \<le> C \<Longrightarrow> cache_inv (MemoryCacheService C dttl)"
  by (simp add: cache_inv_def MemoryCacheService_def)


section \<open>TextRank: lemmas\<close>

lemma calculate_num_sentences_eq:
  "calculate_num_sentences st r =
     min 10 (max 1 (min (req_max_tokens r div 20) (int (length (st (req_text r))) div 3)))"
  by (simp add: calculate_num_sentences_def Let_def min_def max_def)

lemma map_nth_sorted_indices:
  assumes "sorted idxs" and "distinct idxs" and "\<forall>i\<in>set idxs. i < length xs"
  shows "map (\<lambda>i. xs ! i) idxs = nths xs (set idxs)"
proof -
  let ?n = "length xs"
  have "set (nths [0..<?n] (set idxs)) = set idxs"
  proof -
    have "set (nths [0..<?n] (set idxs)) = {i. i < ?n \<and> i \<in> set idxs}"
      unfolding set_nths
    proof (intro set_eqI iffI)
      fix x assume "x \<in> {[0..<?n] ! i |i. i < length [0..<?n] \<and> i \<in> set idxs}"
      then show "x \<in> {i. i < ?n \<and> i \<in> set idxs}" by auto
    next
      fix x assume "x \<in> {i. i < ?n \<and> i \<in> set idxs}"
      then have "x = [0..<?n] ! x \<and> x < length [0..<?n] \<and> x \<in> set idxs" by simp
      then show "x \<in> {[0..<?n] ! i |i. i < length [0..<?n] \<and> i \<in> set idxs}" by blast
    qed
    then show ?thesis using assms(3) by auto
  qed
  moreover have "sorted (nths [0..<?n] (set idxs))" by (simp add: sorted_nths)
  moreover have "distinct (nths [0..<?n] (set idxs))" by simp
  ultimately have eq: "nths [0..<?n] (set idxs) = idxs"
    using assms(1,2) by (intro sorted_distinct_set_unique) auto
  have "nths xs (set idxs) = nths (map (\<lambda>i. xs ! i) [0..<?n]) (set idxs)"
    by (simp add: map_nth)
  also have "\<dots> = map (\<lambda>i. xs ! i) (nths [0..<?n] (set idxs))" by (rule nths_map)
  finally show ?thesis using eq by simp
qed

lemma top_indices_props:
  assumes "is_argsort scores (argsort scores)" and "0 \<le> num" and "num \<le> int (length scores)"
  shows "sorted (top_indices argsort scores num)"
    and "distinct (top_indices argsort scores num)"
    and "\<forall>i\<in>set (top_indices argsort scores num). i < length scores"
    and "length (top_indices argsort scores num) = nat num"
    and "\<forall>i\<in>set (top_indices argsort scores num). \<forall>j < length scores.
           j \<notin> set (top_indices argsort scores num) \<longrightarrow> scores ! j \<le> scores ! i"
proof -
  let ?p = "argsort scores"
  let ?n = "length scores"
  let ?k = "?n - nat num"
  have perm: "sort ?p = [0..<?n]" and srt: "sorted (map (\<lambda>i. scores ! i) ?p)"
    using assms(1) by (simp_all add: is_argsort_def)
  have len: "length ?p = ?n" using perm by (metis length_sort length_upt minus_nat.diff_0)
  have setp: "set ?p = {..<?n}" using perm by (metis atLeast_upt set_sort)
  have dist: "distinct ?p" using perm by (metis distinct_sort distinct_upt)
  have sel: "set (top_indices argsort scores num) = set (drop ?k ?p)"
    using assms(2) by (simp add: top_indices_def py_take_def take_rev len)
  show "sorted (top_indices argsort scores num)" by (simp add: top_indices_def)
  show "distinct (top_indices argsort scores num)"
    using dist assms(2) by (simp add: top_indices_def py_take_def)
  show "\<forall>i\<in>set (top_indices argsort scores num). i < length scores"
    using sel setp by (auto dest: in_set_dropD)
  show "length (top_indices argsort scores num) = nat num"
    using assms(2,3) len by (simp add: top_indices_def py_take_def)
  show "\<forall>i\<in>set (top_indices argsort scores num). \<forall>j < length scores.
           j \<notin> set (top_indices argsort scores num) \<longrightarrow> scores ! j \<le> scores ! i"
  proof (intro ballI allI impI)
    fix i j assume i: "i \<in> set (top_indices argsort scores num)" and j: "j < length scores"
      and nj: "j \<notin> set (top_indices argsort scores num)"
    have "j \<in> set (take ?k ?p) \<union> set (drop ?k ?p)"
      using j setp by (simp flip: set_append)
    then have jt: "j \<in> set (take ?k ?p)" using nj sel by auto
    have id: "i \<in> set (drop ?k ?p)" using i sel by simp
    have "sorted (map (\<lambda>i. scores ! i) (take ?k ?p @ drop ?k ?p))" using srt by simp
    then show "scores ! j \<le> scores ! i"
      unfolding map_append sorted_append using jt id by auto
  qed
qed


section \<open>Orchestrator: lemmas\<close>

lemma try_llm_generation_fails:
  assumes "breaker_rejects b now_enter \<or> provider_fails (provider request)"
  shows "\<exists>e. fst (try_llm_generation b provider request now_enter now_exit) = Inl e
             \<and> is_LLMProviderError e"
proof (cases "aenter b now_enter")
  case (Inl e)
  then have "e = LLMProviderUnavailableError ''Circuit breaker is open''"
    by (auto simp: aenter_def split: if_splits)
  then show ?thesis using Inl by (simp add: try_llm_generation_def guarded_call_def)
next
  case (Inr b1)
  then have "\<not> breaker_rejects b now_enter"
    by (auto simp: aenter_def breaker_rejects_def split: if_splits)
  then have "provider_fails (provider request)" using assms by simp
  then show ?thesis
    using Inr
    by (cases "provider request")
       (simp_all add: provider_fails_def try_llm_generation_def guarded_call_def)
qed

lemma try_fallback_generation_eq:
  assumes "fallback_contract services request"
  shows "try_fallback_generation services request last_error =
           (case find (\<lambda>s. \<not> isl (fs_generate_summary s request))
                   (eligible_services services request) of
              Some s \<Rightarrow> fs_generate_summary s request
            | None \<Rightarrow>
                Inl (aggregate_error
                       (if eligible_services services request = [] then last_error
                        else Some (projl (fs_generate_summary
                               (last (eligible_services services request)) request)))))"
  using assms
proof (induction services arbitrary: last_error)
  case Nil
  then show ?case by (simp add: eligible_services_def aggregate_error_def)
next
  case (Cons s rest)
  have rest: "fallback_contract rest request"
    using Cons.prems by (simp add: fallback_contract_def)
  note IH = Cons.IH[OF rest]
  show ?case
  proof (cases "fs_supports_language s (language_value (req_lang request))")
    case False
    then have el': "eligible_services (s # rest) request = eligible_services rest request"
      by (simp add: eligible_services_def)
    show ?thesis unfolding el' using False IH[of last_error] by simp
  next
    case True
    then have el: "eligible_services (s # rest) request = s # eligible_services rest request"
      by (simp add: eligible_services_def)
    show ?thesis
    proof (cases "fs_generate_summary s request")
      case (Inr response)
      then show ?thesis using True el by simp
    next
      case (Inl e)
      then have fe: "is_FallbackError e"
        using Cons.prems by (simp add: fallback_contract_def)
      show ?thesis
        using True el Inl fe IH[of "Some e"]
        by (auto split: option.splits)
    qed
  qed
qed

lemma aggregate_error_not_provider:
  "is_FallbackError (aggregate_error le) \<and> \<not> is_LLMProviderError (aggregate_error le)"
  by (simp add: aggregate_error_def)

lemma store_contract_silent:
  assumes "cache_store_contract svc"
  shows "fst (cache_store_step svc request r ttl now c) = None"
proof (cases "cache_service svc")
  case None
  then show ?thesis by (simp add: cache_store_step_def)
next
  case (Some cs)
  let ?out = "cs_set_summary cs c (cache_key_of svc request) r
                (Some (timedelta_seconds (case ttl of Some n \<Rightarrow> n | None \<Rightarrow> redis_ttl svc))) now"
  have "case fst ?out of Inl e \<Rightarrow> is_CacheError e | Inr ok \<Rightarrow> True"
    using assms Some by (simp add: cache_store_contract_def)
  then have "fst (case ?out of
           (Inl e, c') \<Rightarrow> if is_CacheError e then (None, c') else (Some e, c')
         | (Inr ok, c') \<Rightarrow> (None, c')) = None"
    by (cases ?out; cases "fst ?out") auto
  then show ?thesis using Some by (simp add: cache_store_step_def try_cache_store_def Let_def)
qed

lemma generate_summary_fallback_path:
  assumes miss: "cache_lookup_misses svc request clk"
    and fail: "breaker_rejects (circuit_breaker svc) (clk_enter clk)
               \<or> provider_fails (llm_provider svc request)"
    and store: "cache_store_contract svc"
  shows "fst (generate_summary svc request clk)
           = try_fallback_generation (fallback_services svc) request None"
proof -
  obtain e where e: "fst (try_llm_generation (circuit_breaker svc) (llm_provider svc) request
                            (clk_enter clk) (clk_exit clk)) = Inl e"
    and q: "is_LLMProviderError e"
    using try_llm_generation_fails[where b = "circuit_breaker svc"
        and provider = "llm_provider svc" and request = request
        and now_enter = "clk_enter clk" and now_exit = "clk_exit clk", OF fail] by blast
  obtain invoked b' where llm: "try_llm_generation (circuit_breaker svc) (llm_provider svc)
        request (clk_enter clk) (clk_exit clk) = (Inl e, invoked, b')"
    using e by (cases "try_llm_generation (circuit_breaker svc) (llm_provider svc)
        request (clk_enter clk) (clk_exit clk)") auto
  obtain c1 where l: "cache_lookup_step svc request (clk_lookup clk) = (Inr None, c1)"
    using miss by (cases "cache_lookup_step svc request (clk_lookup clk)")
      (auto simp: cache_lookup_misses_def)
  show ?thesis
  proof (cases "try_fallback_generation (fallback_services svc) request None")
    case (Inl e')
    then show ?thesis
      using l llm q by (simp add: generate_summary_def)
  next
    case (Inr response)
    obtain c3 where "cache_store_step svc request response (Some 300) (clk_store clk) c1
                       = (None, c3)"
      using store_contract_silent[OF store, of request response "Some 300" "clk_store clk" c1]
      by (cases "cache_store_step svc request response (Some 300) (clk_store clk) c1") auto
    then show ?thesis
      using l llm q Inr by (simp add: generate_summary_def)
  qed
qed

lemma textrank_generate_summary_results:
  "case textrank_generate_summary st sc srt lat request of
     Inl e \<Rightarrow> is_FallbackError e
   | Inr response \<Rightarrow> resp_source response = FALLBACK_TEXTRANK"
  by (auto simp: textrank_generate_summary_def SummaryResponse_def Let_def
           split: sum.splits if_splits)

lemma memory_cache_store_contract:
  "cache_service svc = Some memory_cache_service \<Longrightarrow> cache_store_contract svc"
  by (simp add: cache_store_contract_def memory_cache_service_def split: prod.splits)

lemma tfidf_generate_summary_results:
  "case tfidf_generate_summary st sc ml lat request of
     Inl e \<Rightarrow> is_FallbackError e
   | Inr response \<Rightarrow> resp_source response = FALLBACK_TFIDF"
  by (auto simp: tfidf_generate_summary_def SummaryResponse_def Let_def
           split: sum.splits if_splits)


chapter \<open>The claims\<close>

section \<open>Orchestrator: claim\<close>

text \<open>
  C1 as stated fails where it says that the aggregate \<open>FallbackError\<close> references the
  last underlying error whenever every fallback service is skipped or raises. When every
  service is skipped there is no underlying error: \<open>last_error\<close> keeps its initial value
  \<open>None\<close>. With the default chain (TextRank, then TF-IDF), a request in Chinese whose
  provider call raises a quota error is refused by both services' \<open>supports_language\<close>,
  and the error raised is \<open>FallbackError\<close> with the message
  \<open>All fallback services failed. Last error: None\<close>.
\<close>

theorem all_skipped_no_underlying_error_counterexample:
  "cache_lookup_misses quota_service request_zh demo_clock
   \<and> provider_fails (llm_provider quota_service request_zh)
   \<and> list_all (\<lambda>s. \<not> fs_supports_language s (language_value (req_lang request_zh)))
        (fallback_services quota_service)
   \<and> fst (generate_summary quota_service request_zh demo_clock)
       = Inl (FallbackError ''All fallback services failed. Last error: None'')"
  by code_simp

text \<open>
  C1, amended. When the cache lookup returns nothing and the breaker rejects the call or
  the provider call times out or raises an \<open>LLMProviderError\<close> (generic, timeout, quota
  or unavailable), \<open>generate_summary\<close> goes through the fallback services in their
  configured order, skipping those that do not support the request's language, and
  returns, unchanged, the response of the first one that completes (with the source tag
  that service gave it: \<open>FALLBACK_TEXTRANK\<close> and \<open>FALLBACK_TFIDF\<close> for the two services
  of the repository). When every service is skipped or raises, it raises the aggregate
  \<open>FallbackError\<close>: its message quotes the error of the last service that was tried
  when at least one service supports the language, and reads \<open>Last error: None\<close> when
  all were skipped. In both cases what the caller gets is never a provider error. The
  collaborators are assumed to keep their interfaces' contracts: a fallback service
  raises only \<open>FallbackError\<close>, the cache's \<open>set_summary\<close> only \<open>CacheError\<close>.
\<close>

theorem fallback_chain_on_provider_failure:
  "(cache_lookup_misses svc request clk
      \<and> (breaker_rejects (circuit_breaker svc) (clk_enter clk)
           \<or> provider_fails (llm_provider svc request))
      \<and> fallback_contract (fallback_services svc) request
      \<and> cache_store_contract svc
    \<longrightarrow> (let eligible = eligible_services (fallback_services svc) request;
              result = fst (generate_summary svc request clk)
          in (case find (\<lambda>s. \<not> isl (fs_generate_summary s request)) eligible of
                Some s \<Rightarrow> result = fs_generate_summary s request \<and> \<not> isl result
              | None \<Rightarrow>
                  result = Inl (aggregate_error
                    (if eligible = [] then None
                     else Some (projl (fs_generate_summary (last eligible) request)))))
             \<and> (case result of
                   Inl e \<Rightarrow> is_FallbackError e \<and> \<not> is_LLMProviderError e
                 | Inr response \<Rightarrow> True)))
   \<and> (case fs_generate_summary (TextRankSummarizer st sc srt lat) request of
         Inl e \<Rightarrow> is_FallbackError e
       | Inr response \<Rightarrow> resp_source response = FALLBACK_TEXTRANK)
   \<and> (case fs_generate_summary (TFIDFSummarizer st gs ml lat) request of
         Inl e \<Rightarrow> is_FallbackError e
       | Inr response \<Rightarrow> resp_source response = FALLBACK_TFIDF)"
proof (intro conjI impI)
  assume h: "cache_lookup_misses svc request clk
      \<and> (breaker_rejects (circuit_breaker svc) (clk_enter clk)
           \<or> provider_fails (llm_provider svc request))
      \<and> fallback_contract (fallback_services svc) request
      \<and> cache_store_contract svc"
  let ?eligible = "eligible_services (fallback_services svc) request"
  let ?result = "fst (generate_summary svc request clk)"
  have r: "?result = try_fallback_generation (fallback_services svc) request None"
    by (rule generate_summary_fallback_path) (use h in simp_all)
  have c: "fallback_contract (fallback_services svc) request" using h by simp
  note eq = try_fallback_generation_eq[OF c, of None]
  show "let eligible = ?eligible; result = ?result
          in (case find (\<lambda>s. \<not> isl (fs_generate_summary s request)) eligible of
                Some s \<Rightarrow> result = fs_generate_summary s request \<and> \<not> isl result
              | None \<Rightarrow>
                  result = Inl (aggregate_error
                    (if eligible = [] then None
                     else Some (projl (fs_generate_summary (last eligible) request)))))
             \<and> (case result of
                   Inl e \<Rightarrow> is_FallbackError e \<and> \<not> is_LLMProviderError e
                 | Inr response \<Rightarrow> True)"
  proof (cases "find (\<lambda>s. \<not> isl (fs_generate_summary s request)) ?eligible")
    case None
    then show ?thesis
      unfolding Let_def r eq by (simp add: aggregate_error_not_provider)
  next
    case (Some s)
    then have "\<not> isl (fs_generate_summary s request)"
      by (auto simp: find_Some_iff)
    then show ?thesis
      unfolding Let_def r eq using Some by (auto split: sum.splits)
  qed
next
  show "case fs_generate_summary (TextRankSummarizer st sc srt lat) request of
         Inl e \<Rightarrow> is_FallbackError e
       | Inr response \<Rightarrow> resp_source response = FALLBACK_TEXTRANK"
    using textrank_generate_summary_results[of st sc srt lat request]
    by (simp add: TextRankSummarizer_def)
next
  show "case fs_generate_summary (TFIDFSummarizer st gs ml lat) request of
         Inl e \<Rightarrow> is_FallbackError e
       | Inr response \<Rightarrow> resp_source response = FALLBACK_TFIDF"
    using tfidf_generate_summary_results[of st gs ml lat request]
    by (simp add: TFIDFSummarizer_def)
qed

theorem fallback_chain_on_provider_failure_witness:
  "cache_lookup_misses demo_service request_alice demo_clock
   \<and> provider_fails (llm_provider demo_service request_alice)
   \<and> fallback_contract (fallback_services demo_service) request_alice
   \<and> cache_store_contract demo_service
   \<and> fst (generate_summary demo_service request_alice demo_clock)
       = fs_generate_summary working_tfidf request_alice
   \<and> fst (generate_summary demo_service request_alice demo_clock)
       = Inr \<lparr> resp_summary = ''Delta four.'', resp_prompt_tokens = 10,
               resp_completion_tokens = 2, resp_model = ''tfidf'', resp_latency_ms = 3,
               resp_source = FALLBACK_TFIDF, resp_request_id = Some ''req-1'',
               resp_cache_hit = False \<rparr>
   \<and> cache_lookup_misses exhausted_service request_alice demo_clock
   \<and> breaker_rejects (circuit_breaker exhausted_service) (clk_enter demo_clock)
   \<and> fallback_contract (fallback_services exhausted_service) request_alice
   \<and> cache_store_contract exhausted_service
   \<and> fst (generate_summary exhausted_service request_alice demo_clock)
       = Inl (FallbackError (''All fallback services failed. Last error: '' @
                ''TextRank summarization failed: Sentence extraction failed: empty vocabulary''))
   \<and> cache_lookup_misses quota_service request_zh demo_clock
   \<and> provider_fails (llm_provider quota_service request_zh)
   \<and> fallback_contract (fallback_services quota_service) request_zh
   \<and> cache_store_contract quota_service
   \<and> eligible_services (fallback_services quota_service) request_zh = []
   \<and> fst (generate_summary quota_service request_zh demo_clock) = Inl (aggregate_error None)"
proof -
  let ?P = "\<lambda>s. \<not> isl (fs_generate_summary s request_alice)"
  have sup: "\<not> fs_supports_language unsupported_service (language_value (req_lang request_alice))"
    "fs_supports_language failing_textrank (language_value (req_lang request_alice))"
    "fs_supports_language working_tfidf (language_value (req_lang request_alice))"
    "fs_supports_language working_textrank (language_value (req_lang request_alice))"
    by code_simp+
  have gen: "fs_generate_summary failing_textrank request_alice
               = Inl (FallbackError
                   ''TextRank summarization failed: Sentence extraction failed: empty vocabulary'')"
    "fs_generate_summary working_tfidf request_alice
       = Inr \<lparr> resp_summary = ''Delta four.'', resp_prompt_tokens = 10,
               resp_completion_tokens = 2, resp_model = ''tfidf'', resp_latency_ms = 3,
               resp_source = FALLBACK_TFIDF, resp_request_id = Some ''req-1'',
               resp_cache_hit = False \<rparr>"
    by code_simp+
  have el1: "eligible_services (fallback_services demo_service) request_alice
               = [failing_textrank, working_tfidf, working_textrank]"
    using sup by (simp add: eligible_services_def demo_service_def)
  have el2: "eligible_services (fallback_services exhausted_service) request_alice
               = [failing_textrank]"
    using sup by (simp add: eligible_services_def exhausted_service_def)
  have find1: "find ?P [failing_textrank, working_tfidf, working_textrank]
               = Some working_tfidf"
    by (simp add: gen)
  have find2: "find ?P [failing_textrank] = None"
    by (simp add: gen)
  have h1: "cache_lookup_misses demo_service request_alice demo_clock"
    "provider_fails (llm_provider demo_service request_alice)"
    "fallback_contract (fallback_services demo_service) request_alice"
    "cache_lookup_misses exhausted_service request_alice demo_clock"
    "breaker_rejects (circuit_breaker exhausted_service) (clk_enter demo_clock)"
    "fallback_contract (fallback_services exhausted_service) request_alice"
    by code_simp+
  have s1: "cache_store_contract demo_service"
    by (rule memory_cache_store_contract) (simp add: demo_service_def)
  have s2: "cache_store_contract exhausted_service"
    by (rule memory_cache_store_contract) (simp add: exhausted_service_def)
  have r1: "fst (generate_summary demo_service request_alice demo_clock)
       = fs_generate_summary working_tfidf request_alice"
    using fallback_chain_on_provider_failure
        [of demo_service request_alice demo_clock, THEN conjunct1, rule_format]
      h1 s1
    unfolding Let_def el1 find1 by simp
  have r2: "fst (generate_summary exhausted_service request_alice demo_clock)
       = Inl (aggregate_error (Some (projl (fs_generate_summary failing_textrank request_alice))))"
    using fallback_chain_on_provider_failure
        [of exhausted_service request_alice demo_clock, THEN conjunct1, rule_format]
      h1 s2
    unfolding Let_def el2 find2 by simp
  have r2': "fst (generate_summary exhausted_service request_alice demo_clock)
       = Inl (FallbackError (''All fallback services failed. Last error: '' @
                ''TextRank summarization failed: Sentence extraction failed: empty vocabulary''))"
    unfolding r2 gen by (simp add: aggregate_error_def)
  have sup3: "\<not> fs_supports_language working_textrank (language_value (req_lang request_zh))"
    "\<not> fs_supports_language working_tfidf (language_value (req_lang request_zh))"
    by code_simp+
  have el3: "eligible_services (fallback_services quota_service) request_zh = []"
    using sup3 by (simp add: eligible_services_def quota_service_def)
  have h3: "cache_lookup_misses quota_service request_zh demo_clock"
    "provider_fails (llm_provider quota_service request_zh)"
    "fallback_contract (fallback_services quota_service) request_zh"
    by code_simp+
  have s3: "cache_store_contract quota_service"
    by (rule memory_cache_store_contract) (simp add: quota_service_def)
  have r3: "fst (generate_summary quota_service request_zh demo_clock)
       = Inl (aggregate_error None)"
    using fallback_chain_on_provider_failure
        [of quota_service request_zh demo_clock, THEN conjunct1, rule_format]
      h3 s3
    unfolding Let_def el3 by simp
  show ?thesis using h1 s1 s2 r1 r1[unfolded gen] r2' h3 s3 el3 r3 by blast
qed


section \<open>Circuit breaker: claims\<close>



text \<open>
  C3 as stated fails: the breaker has no HALF\_OPEN state. With the threshold 3 of
  \<open>SummaryService\<close>, the breaker that opened after three failures is closed again by the
  entry of the first call made after the timeout; that call's qualifying failure leaves
  the breaker closed (one failure is below the threshold), and a second call is let
  through to the provider as well.
\<close>

theorem half_open_single_failure_counterexample:
  "is_open tripped_breaker
   \<and> guarded_call tripped_breaker 65 (Inl (LLMProviderError ''down'') :: exn + unit) 66 =
       (Inl (LLMProviderError ''down''), True,
        tripped_breaker\<lparr>is_open := False, failure_count := 1, last_failure_time := Some 66\<rparr>)
   \<and> fst (snd (guarded_call
        (tripped_breaker\<lparr>is_open := False, failure_count := 1, last_failure_time := Some 66\<rparr>)
        67 (Inl (LLMProviderError ''down'') :: exn + unit) 68))"
  by (simp add: tripped_breaker_eq guarded_call_def aenter_def aexit_def
      should_attempt_reset_def Let_def)

text \<open>
  C3, amended. When the breaker is open and \<open>recovery_timeout\<close> has elapsed since the
  last failure, the entry of the next guarded call closes the breaker and resets
  \<open>failure_count\<close> to 0, so that call runs. A qualifying failure of that call sets
  \<open>failure_count\<close> to 1, records the failure time, and reopens the breaker exactly when
  \<open>failure_threshold \<le> 1\<close>. Otherwise \<open>failure_threshold\<close> consecutive qualifying
  failures are needed again: when that call and the calls after it all fail, the breaker
  is still closed while they are fewer than \<open>failure_threshold\<close>, and it is open once
  they are \<open>failure_threshold\<close>. There is no trial state: whenever the breaker is
  closed, the entry of a guarded call changes nothing and the call runs its body, so
  every call is permitted until the breaker reopens.
\<close>

theorem reset_on_entry_then_threshold_decides:
  "(is_open b \<and> last_failure_time b = Some t
      \<and> now - t \<ge> real_of_int (recovery_timeout b) \<and> expected_exception b e
      \<and> list_all (\<lambda>c. expected_exception b (fst (snd c))) rest
    \<longrightarrow> aenter b now = Inr (b\<lparr>is_open := False, failure_count := 0\<rparr>)
        \<and> guarded_call b now (Inl e) t_exit =
             (Inl e, True,
              b\<lparr>is_open := (failure_threshold b \<le> 1), failure_count := 1,
                last_failure_time := Some t_exit\<rparr>)
        \<and> (1 + int (length rest) < failure_threshold b
             \<longrightarrow> \<not> is_open (run_failures b ((now, e, t_exit) # rest)))
        \<and> (1 + int (length rest) = failure_threshold b
             \<longrightarrow> is_open (run_failures b ((now, e, t_exit) # rest))))
   \<and> (\<not> is_open bc
    \<longrightarrow> aenter bc now' = Inr bc
        \<and> fst (guarded_call bc now' body t_exit') = body
        \<and> fst (snd (guarded_call bc now' body t_exit')))"
proof (intro conjI impI)
  assume h: "is_open b \<and> last_failure_time b = Some t
      \<and> now - t \<ge> real_of_int (recovery_timeout b) \<and> expected_exception b e
      \<and> list_all (\<lambda>c. expected_exception b (fst (snd c))) rest"
  then have o: "is_open b" and l: "last_failure_time b = Some t"
    and el: "now - t \<ge> real_of_int (recovery_timeout b)" and ex: "expected_exception b e"
    and all: "list_all (\<lambda>c. expected_exception b (fst (snd c))) rest"
    by simp_all
  show "aenter b now = Inr (b\<lparr>is_open := False, failure_count := 0\<rparr>)"
    by (rule aenter_after_timeout[OF o l el])
  show "guarded_call b now (Inl e) t_exit =
             (Inl e, True,
              b\<lparr>is_open := (failure_threshold b \<le> 1), failure_count := 1,
                last_failure_time := Some t_exit\<rparr>)"
    by (rule guarded_call_trial_failure[OF o l el ex])
  {
    assume "1 + int (length rest) < failure_threshold b"
    then show "\<not> is_open (run_failures b ((now, e, t_exit) # rest))"
      by (rule trial_run_stays_closed[OF o l el ex all])
  }
  {
    assume "1 + int (length rest) = failure_threshold b"
    then show "is_open (run_failures b ((now, e, t_exit) # rest))"
      by (rule trial_run_reopens[OF o l el ex all])
  }
next
  assume c: "\<not> is_open bc"
  then show "aenter bc now' = Inr bc" by (simp add: aenter_def)
  from c show "fst (guarded_call bc now' body t_exit') = body"
    by (rule guarded_call_closed_runs(1))
  from c show "fst (snd (guarded_call bc now' body t_exit'))"
    by (rule guarded_call_closed_runs(2))
qed

theorem reset_on_entry_then_threshold_decides_witness:
  "aenter tripped_breaker 65 = Inr (tripped_breaker\<lparr>is_open := False, failure_count := 0\<rparr>)
   \<and> guarded_call tripped_breaker 65 (Inl (LLMProviderError ''down'') :: exn + unit) 66 =
       (Inl (LLMProviderError ''down''), True,
        tripped_breaker\<lparr>is_open := False, failure_count := 1, last_failure_time := Some 66\<rparr>)
   \<and> \<not> is_open (run_failures tripped_breaker (take 2 reopening_failures))
   \<and> is_open (run_failures tripped_breaker reopening_failures)
   \<and> aenter (tripped_breaker\<lparr>is_open := False, failure_count := 1,
                last_failure_time := Some 66\<rparr>) 67
       = Inr (tripped_breaker\<lparr>is_open := False, failure_count := 1,
                last_failure_time := Some 66\<rparr>)
   \<and> fst (guarded_call (tripped_breaker\<lparr>is_open := False, failure_count := 1,
                last_failure_time := Some 66\<rparr>) 67 (Inr () :: exn + unit) 68) = Inr ()
   \<and> fst (snd (guarded_call (tripped_breaker\<lparr>is_open := False, failure_count := 1,
                last_failure_time := Some 66\<rparr>) 67 (Inr () :: exn + unit) 68))"
proof -
  let ?closed = "tripped_breaker\<lparr>is_open := False, failure_count := 1,
                   last_failure_time := Some 66\<rparr>"
  let ?e = "LLMProviderError ''down''"
  let ?one = "[(67, LLMProviderUnavailableError ''unavailable'', 68)]
                :: (real \<times> exn \<times> real) list"
  let ?two = "[(67, LLMProviderUnavailableError ''unavailable'', 68),
               (69, LLMProviderTimeoutError ''LLM provider timed out'', 70)]
                :: (real \<times> exn \<times> real) list"
  have runs: "take 2 reopening_failures = (65, ?e, 66) # ?one"
    "reopening_failures = (65, ?e, 66) # ?two"
    by (simp_all add: reopening_failures_def)
  have h1: "is_open tripped_breaker \<and> last_failure_time tripped_breaker = Some 5
      \<and> 65 - 5 \<ge> real_of_int (recovery_timeout tripped_breaker)
      \<and> expected_exception tripped_breaker ?e
      \<and> list_all (\<lambda>c. expected_exception tripped_breaker (fst (snd c))) ?one"
    by (simp add: tripped_breaker_eq)
  have h2: "is_open tripped_breaker \<and> last_failure_time tripped_breaker = Some 5
      \<and> 65 - 5 \<ge> real_of_int (recovery_timeout tripped_breaker)
      \<and> expected_exception tripped_breaker ?e
      \<and> list_all (\<lambda>c. expected_exception tripped_breaker (fst (snd c))) ?two"
    by (simp add: tripped_breaker_eq)
  have n1: "1 + int (length ?one) < failure_threshold tripped_breaker"
    by (simp add: tripped_breaker_eq)
  have n2: "1 + int (length ?two) = failure_threshold tripped_breaker"
    by (simp add: tripped_breaker_eq)
  have c: "\<not> is_open ?closed" by simp
  note t1 = reset_on_entry_then_threshold_decides
    [of tripped_breaker 5 65 ?e ?one 66 ?closed 67 "Inr () :: exn + unit" 68]
  note t2 = reset_on_entry_then_threshold_decides
    [of tripped_breaker 5 65 ?e ?two 66 ?closed 67 "Inr () :: exn + unit" 68]
  note m1 = t1[THEN conjunct1, rule_format, OF h1]
  note m2 = t2[THEN conjunct1, rule_format, OF h2]
  have a1: "aenter tripped_breaker 65
              = Inr (tripped_breaker\<lparr>is_open := False, failure_count := 0\<rparr>)"
    by (rule m1[THEN conjunct1])
  have a2: "guarded_call tripped_breaker 65 (Inl ?e :: exn + unit) 66 =
       (Inl ?e, True,
        tripped_breaker\<lparr>is_open := (failure_threshold tripped_breaker \<le> 1),
          failure_count := 1, last_failure_time := Some 66\<rparr>)"
    by (rule m1[THEN conjunct2, THEN conjunct1])
  have a2': "guarded_call tripped_breaker 65 (Inl ?e :: exn + unit) 66 =
       (Inl ?e, True, ?closed)"
    unfolding a2 by (simp add: tripped_breaker_eq)
  have a3: "\<not> is_open (run_failures tripped_breaker (take 2 reopening_failures))"
    unfolding runs(1)
    by (rule m1[THEN conjunct2, THEN conjunct2, THEN conjunct1, rule_format, OF n1])
  have a4: "is_open (run_failures tripped_breaker reopening_failures)"
    unfolding runs(2)
    by (rule m2[THEN conjunct2, THEN conjunct2, THEN conjunct2, rule_format, OF n2])
  have a5: "aenter ?closed 67 = Inr ?closed
      \<and> fst (guarded_call ?closed 67 (Inr () :: exn + unit) 68) = Inr ()
      \<and> fst (snd (guarded_call ?closed 67 (Inr () :: exn + unit) 68))"
    by (rule t1[THEN conjunct2, rule_format, OF c])
  show ?thesis using a1 a2' a3 a4 a5 by blast
qed


section \<open>Rate limiter: claims\<close>

text \<open>
  C4 as stated fails at two places. A retained timestamp equal to \<open>now - window\<close> is
  not older than \<open>now - window\<close>, yet the pruning loop removes it (\<open><=\<close>): with limit 1
  and window 60, requests at times 0 and 60 are both allowed, so the closed 60-second
  interval \<open>[0, 60]\<close> admits two requests. And \<open>retry_after\<close> is converted with
  \<open>int(...)\<close>: a request at time 2.5 denied because of one at time 0 gets
  \<open>retry_after = 57\<close>, not \<open>60 - (2.5 - 0) = 57.5\<close>.
\<close>

theorem is_allowed_boundary_and_truncation_counterexample:
  "map (\<lambda>r. fst (snd r)) (run_requests (\<lambda>_. []) ''u'' 1 60 [0, 60]) = [True, True]
   \<and> \<not> ((0::real) < 60 - real_of_int 60)
   \<and> map (\<lambda>r. (fst (snd r), info_retry_after (snd (snd r))))
         (run_requests (\<lambda>_. []) ''u'' 1 60 [0, 5/2]) = [(True, 60), (False, 57)]
   \<and> real_of_int 57 \<noteq> max 1 (real_of_int 60 - (5/2 - 0))"
  by code_simp

text \<open>
  C4, amended. For every call \<open>is_allowed(identifier, limit, window)\<close> at time \<open>now\<close>:
  after removing from the front of the history the timestamps at or before
  \<open>now - window\<close> (on a monotone history: keeping exactly those after \<open>now - window\<close>), the
  request is allowed iff the retained count is strictly below \<open>limit\<close>; then \<open>now\<close> is
  appended and \<open>remaining = limit - count - 1\<close>; otherwise the history is the retained one
  and \<open>retry_after\<close> is \<open>window - (now - oldest retained timestamp)\<close> truncated to an
  integer and clamped to at least 1. Consequently, for calls at non-decreasing times
  starting from an empty history, every half-open interval \<open>(a, a + window]\<close> holds at
  most \<open>limit\<close> admitted requests, and of \<open>limit + 1\<close> requests less than \<open>window\<close>
  apart the first \<open>limit\<close> are allowed and the last is denied with \<open>retry_after > 0\<close>.
\<close>

theorem is_allowed_sliding_window:
  "(case is_allowed rh i L W now of
      ((allowed, info), rh') \<Rightarrow>
        (let retained = prune (now - real_of_int W) (rh i); count = int (length retained) in
           allowed = (count < L) \<and>
           (if allowed
            then rh' = rh(i := retained @ [now]) \<and> info_remaining info = L - count - 1
            else rh' = rh(i := retained) \<and>
                 info_retry_after info =
                   max 1 (py_int (real_of_int W -
                            (now - (if retained = [] then now else hd retained)))))))
   \<and> (sorted (rh i) \<longrightarrow>
          prune (now - real_of_int W) (rh i) = filter (\<lambda>t. now - real_of_int W < t) (rh i))
   \<and> (sorted ts \<and> 0 \<le> L \<longrightarrow>
          int (in_window W a (admitted_times (run_requests (\<lambda>_. []) i L W ts))) \<le> L)
   \<and> (sorted ts \<and> 0 \<le> L \<and> length ts = nat L + 1 \<and> last ts - hd ts < real_of_int W \<longrightarrow>
          map (\<lambda>r. fst (snd r)) (run_requests (\<lambda>_. []) i L W ts) = replicate (nat L) True @ [False]
          \<and> 0 < info_retry_after (snd (snd (last (run_requests (\<lambda>_. []) i L W ts)))))"
proof (intro conjI impI)
  show "case is_allowed rh i L W now of
      ((allowed, info), rh') \<Rightarrow>
        (let retained = prune (now - real_of_int W) (rh i); count = int (length retained) in
           allowed = (count < L) \<and>
           (if allowed
            then rh' = rh(i := retained @ [now]) \<and> info_remaining info = L - count - 1
            else rh' = rh(i := retained) \<and>
                 info_retry_after info =
                   max 1 (py_int (real_of_int W -
                            (now - (if retained = [] then now else hd retained))))))"
    by (simp add: is_allowed_def Let_def)
next
  assume "sorted (rh i)"
  then show "prune (now - real_of_int W) (rh i) = filter (\<lambda>t. now - real_of_int W < t) (rh i)"
    by (rule prune_sorted)
next
  assume "sorted ts \<and> 0 \<le> L"
  then show "int (in_window W a (admitted_times (run_requests (\<lambda>_. []) i L W ts))) \<le> L"
    by (simp add: sliding_window_bound)
next
  assume h: "sorted ts \<and> 0 \<le> L \<and> length ts = nat L + 1 \<and> last ts - hd ts < real_of_int W"
  have "map (\<lambda>r. fst (snd r)) (run_requests (\<lambda>_. []) i L W ts) = replicate (nat L) True @ [False]
         \<and> 0 < info_retry_after (snd (snd (last (run_requests (\<lambda>_. []) i L W ts))))"
    by (rule over_limit_denied) (use h in simp_all)
  then show "map (\<lambda>r. fst (snd r)) (run_requests (\<lambda>_. []) i L W ts) = replicate (nat L) True @ [False]"
    and "0 < info_retry_after (snd (snd (last (run_requests (\<lambda>_. []) i L W ts))))"
    by simp_all
qed

theorem is_allowed_sliding_window_witness:
  "fst (is_allowed two_seen ''u'' 2 60 (5/2)) =
      (False, \<lparr>info_limit = 2, info_remaining = 0, info_reset = 62, info_retry_after = 57\<rparr>)
   \<and> snd (is_allowed two_seen ''u'' 2 60 (5/2)) ''u'' = [0, 1]
   \<and> sorted (two_seen ''u'')
   \<and> prune (5/2 - real_of_int 60) (two_seen ''u'') = filter (\<lambda>t. 5/2 - real_of_int 60 < t) (two_seen ''u'')
   \<and> sorted [0, 1, 5/2 :: real] \<and> (0::int) \<le> 2
   \<and> int (in_window 60 0 (admitted_times (run_requests (\<lambda>_. []) ''u'' 2 60 [0, 1, 5/2]))) \<le> 2
   \<and> length [0, 1, 5/2 :: real] = nat 2 + 1
   \<and> last [0, 1, 5/2 :: real] - hd [0, 1, 5/2] < real_of_int 60
   \<and> map (\<lambda>r. fst (snd r)) (run_requests (\<lambda>_. []) ''u'' 2 60 [0, 1, 5/2]) = [True, True, False]
   \<and> 0 < info_retry_after (snd (snd (last (run_requests (\<lambda>_. []) ''u'' 2 60 [0, 1, 5/2]))))"
proof -
  have ev: "fst (is_allowed two_seen ''u'' 2 60 (5/2)) =
      (False, \<lparr>info_limit = 2, info_remaining = 0, info_reset = 62, info_retry_after = 57\<rparr>)"
    "snd (is_allowed two_seen ''u'' 2 60 (5/2)) ''u'' = [0, 1]"
    by code_simp+
  have hyp: "sorted (two_seen ''u'')" "sorted [0, 1, 5/2 :: real] \<and> (0::int) \<le> 2"
    "sorted [0, 1, 5/2 :: real] \<and> (0::int) \<le> 2 \<and> length [0, 1, 5/2 :: real] = nat 2 + 1
      \<and> last [0, 1, 5/2 :: real] - hd [0, 1, 5/2] < real_of_int 60"
    by (simp_all add: two_seen_def)
  show ?thesis
    using is_allowed_sliding_window
      [where rh = two_seen and i = "''u''" and L = 2 and W = 60 and now = "5/2"
         and ts = "[0, 1, 5/2]" and a = 0] ev hyp
    by (simp add: replicate_Suc numeral_2_eq_2)
qed

text \<open>
  C5. The dual-window check evaluates the request against the 60-second window of key
  \<open>identifier:minute\<close> and the 3600-second window of key \<open>identifier:hour\<close>, and its
  verdict is the conjunction of the two verdicts (\<open>check_rate_limits_verdict\<close>). The
  metadata of a denial are meant to be those of the most restrictive window, as the
  comment above the selection in \<open>_check_rate_limits\<close> says, but the selection tests the
  minute window first: when both windows deny, the minute window's metadata are returned
  even if the hour window keeps the client out far longer. With 2 requests per minute
  and 3 per hour, after requests at times 100, 101 and 102 (the third denied by the
  minute window and still recorded in the hour window), the request at time 103 is denied
  by both windows: the hour window's retry-after is 3597 seconds, and the result carries
  the minute window's limit, remaining, reset and retry-after of 57 seconds.
\<close>

theorem both_windows_deny_minute_metadata:
  "burst_history ''ip:10.0.0.1:minute'' = [100, 101]
   \<and> burst_history ''ip:10.0.0.1:hour'' = [100, 101, 102]
   \<and> fst (is_allowed burst_history ''ip:10.0.0.1:minute'' 2 60 103) =
       (False, \<lparr>info_limit = 2, info_remaining = 0, info_reset = 163, info_retry_after = 57\<rparr>)
   \<and> fst (is_allowed burst_history ''ip:10.0.0.1:hour'' 3 3600 103) =
       (False, \<lparr>info_limit = 3, info_remaining = 0, info_reset = 3703,
                info_retry_after = 3597\<rparr>)
   \<and> fst (check_rate_limits burst_history ''ip:10.0.0.1''
            \<lparr>requests_per_minute = 2, requests_per_hour = 3\<rparr> 103 103) =
       \<lparr>result_allowed = False, result_limit = 2, result_remaining = 0, result_reset = 163,
        result_retry_after = 57, result_window = ''minute''\<rparr>
   \<and> metadata_of (fst (check_rate_limits burst_history ''ip:10.0.0.1''
            \<lparr>requests_per_minute = 2, requests_per_hour = 3\<rparr> 103 103))
       \<noteq> snd (fst (is_allowed burst_history ''ip:10.0.0.1:hour'' 3 3600 103))"
  by code_simp

text \<open>
  C10. Each window is updated whatever the overall verdict: when the minute window denies
  and the hour window allows, the request is denied and its timestamp is appended to the
  hour window's (pruned) history; when the hour window denies and the minute window
  allows, the request is denied and its timestamp is appended to the minute window's.
\<close>

theorem denied_request_consumes_other_window:
  "(let kmin = ident @ '':minute''; khour = ident @ '':hour'';
        m = is_allowed rh kmin (requests_per_minute lims) 60 t_minute;
        h = is_allowed rh khour (requests_per_hour lims) 3600 t_hour;
        res = fst (check_rate_limits rh ident lims t_minute t_hour);
        rh' = snd (check_rate_limits rh ident lims t_minute t_hour)
    in (\<not> fst (fst m) \<and> fst (fst h) \<longrightarrow>
          \<not> result_allowed res \<and> rh' khour = prune (t_hour - 3600) (rh khour) @ [t_hour])
     \<and> (fst (fst m) \<and> \<not> fst (fst h) \<longrightarrow>
          \<not> result_allowed res \<and> rh' kmin = prune (t_minute - 60) (rh kmin) @ [t_minute]))"
  by (simp add: check_rate_limits_eq Let_def is_allowed_verdict is_allowed_history)

theorem denied_request_consumes_other_window_witness:
  "\<not> fst (fst (is_allowed minute_full ''ip:10.0.0.1:minute'' 2 60 2))
   \<and> fst (fst (is_allowed minute_full ''ip:10.0.0.1:hour'' 100 3600 2))
   \<and> \<not> result_allowed (fst (check_rate_limits minute_full ''ip:10.0.0.1''
          \<lparr>requests_per_minute = 2, requests_per_hour = 100\<rparr> 2 2))
   \<and> snd (check_rate_limits minute_full ''ip:10.0.0.1''
          \<lparr>requests_per_minute = 2, requests_per_hour = 100\<rparr> 2 2) ''ip:10.0.0.1:hour''
       = [0, 1, 2]
   \<and> fst (fst (is_allowed hour_full ''ip:10.0.0.1:minute'' 5 60 200))
   \<and> \<not> fst (fst (is_allowed hour_full ''ip:10.0.0.1:hour'' 2 3600 200))
   \<and> \<not> result_allowed (fst (check_rate_limits hour_full ''ip:10.0.0.1''
          \<lparr>requests_per_minute = 5, requests_per_hour = 2\<rparr> 200 200))
   \<and> snd (check_rate_limits hour_full ''ip:10.0.0.1''
          \<lparr>requests_per_minute = 5, requests_per_hour = 2\<rparr> 200 200) ''ip:10.0.0.1:minute''
       = [200]"
proof -
  have ev: "\<not> fst (fst (is_allowed minute_full ''ip:10.0.0.1:minute'' 2 60 2))"
    "fst (fst (is_allowed minute_full ''ip:10.0.0.1:hour'' 100 3600 2))"
    "prune (2 - 3600) (minute_full ''ip:10.0.0.1:hour'') @ [2] = [0, 1, 2]"
    "fst (fst (is_allowed hour_full ''ip:10.0.0.1:minute'' 5 60 200))"
    "\<not> fst (fst (is_allowed hour_full ''ip:10.0.0.1:hour'' 2 3600 200))"
    "prune (200 - 60) (hour_full ''ip:10.0.0.1:minute'') @ [200] = [200]"
    by code_simp+
  show ?thesis
    using denied_request_consumes_other_window
      [where rh = minute_full and ident = "''ip:10.0.0.1''"
         and lims = "\<lparr>requests_per_minute = 2, requests_per_hour = 100\<rparr>"
         and t_minute = 2 and t_hour = 2]
      denied_request_consumes_other_window
      [where rh = hour_full and ident = "''ip:10.0.0.1''"
         and lims = "\<lparr>requests_per_minute = 5, requests_per_hour = 2\<rparr>"
         and t_minute = 200 and t_hour = 200] ev
    by (simp add: Let_def)
qed


section \<open>Memory cache: claims\<close>

text \<open>
  C6 as stated fails: \<open>set_summary\<close> converts the TTL to whole seconds with
  \<open>int(ttl.total_seconds())\<close>. An entry written at time 0 with a TTL of 2.5 seconds has
  \<open>expires_at = 2\<close>, not \<open>created_at + ttl = 2.5\<close>, and \<open>get_summary\<close> at time 2.2,
  before \<open>created_at + ttl\<close>, returns \<open>None\<close>.
\<close>

theorem set_summary_fractional_ttl_counterexample:
  "map (\<lambda>kv. (fst kv, created_at (snd kv), expires_at (snd kv)))
      (cache (snd (set_summary (MemoryCacheService 1000 3600) ''K'' sample_response
                     (Some 2500000) 0)))
     = [(''K'', 0, 2)]
   \<and> (0::real) + total_seconds 2500000 = 5/2
   \<and> (11/5 :: real) \<le> 0 + total_seconds 2500000
   \<and> fst (get_summary
        (snd (set_summary (MemoryCacheService 1000 3600) ''K'' sample_response
                (Some 2500000) 0)) ''K'' (11/5)) = None"
  by code_simp

text \<open>
  C6, amended. Every entry written by \<open>set_summary(K, V, ttl)\<close> with a non-zero \<open>ttl\<close>
  has \<open>expires_at = created_at + int(ttl.total_seconds())\<close>, the TTL truncated to whole
  seconds (for a TTL of \<open>n \<noteq> 0\<close> whole seconds: \<open>created_at + n\<close>); for an entry held
  under \<open>K\<close>, \<open>get_summary(K)\<close> at any time at or before \<open>expires_at\<close> returns its
  value, and at any time strictly after \<open>expires_at\<close> deletes the entry and returns
  \<open>None\<close>.
\<close>

theorem cache_entry_expiry:
  "(td \<noteq> 0 \<longrightarrow>
      map_of (cache (snd (set_summary mc k v (Some td) now))) k
        = Some (CacheEntry v (py_int (total_seconds td)) now))
   \<and> (n \<noteq> 0 \<longrightarrow>
      map_of (cache (snd (set_summary mc k v (Some (timedelta_seconds n)) now))) k
        = Some (CacheEntry v n now))
   \<and> entry_value (CacheEntry v n now) = v
   \<and> expires_at (CacheEntry v n now) = created_at (CacheEntry v n now) + real_of_int n
   \<and> (map_of (cache mc) k = Some e \<and> t \<le> expires_at e \<longrightarrow>
        fst (get_summary mc k t) = Some (entry_value e))
   \<and> (map_of (cache mc) k = Some e \<and> t > expires_at e \<longrightarrow>
        fst (get_summary mc k t) = None
        \<and> map_of (cache (snd (get_summary mc k t))) k = None)"
proof (intro conjI impI)
  assume "td \<noteq> 0"
  then show "map_of (cache (snd (set_summary mc k v (Some td) now))) k
        = Some (CacheEntry v (py_int (total_seconds td)) now)"
    by (simp add: map_of_after_set ttl_seconds_of_def)
next
  assume "n \<noteq> 0"
  then have "timedelta_seconds n \<noteq> 0" by (simp add: timedelta_seconds_def)
  then show "map_of (cache (snd (set_summary mc k v (Some (timedelta_seconds n)) now))) k
        = Some (CacheEntry v n now)"
    by (simp add: map_of_after_set ttl_seconds_of_def py_int_whole_seconds)
next
  show "entry_value (CacheEntry v n now) = v"
    and "expires_at (CacheEntry v n now) = created_at (CacheEntry v n now) + real_of_int n"
    by (simp_all add: CacheEntry_def)
next
  assume h: "map_of (cache mc) k = Some e \<and> t \<le> expires_at e"
  then have "\<not> is_expired e t" by (simp add: is_expired_def)
  with h show "fst (get_summary mc k t) = Some (entry_value e)"
    by (simp add: get_summary_hit)
next
  assume h: "map_of (cache mc) k = Some e \<and> t > expires_at e"
  then have x: "is_expired e t" by (simp add: is_expired_def)
  with h show "fst (get_summary mc k t) = None"
    by (simp add: get_summary_expired)
  from h x show "map_of (cache (snd (get_summary mc k t))) k = None"
    by (simp add: get_summary_expired map_of_od_delitem)
qed

theorem cache_entry_expiry_witness:
  "(2500000 :: int) \<noteq> 0
   \<and> map_of (cache (snd (set_summary (MemoryCacheService 1000 3600) ''K'' sample_response
                          (Some 2500000) 0))) ''K''
        = Some (CacheEntry sample_response 2 0)
   \<and> (2::int) \<noteq> 0
   \<and> map_of (cache two_second_cache) ''K'' = Some (CacheEntry sample_response 2 0)
   \<and> expires_at (CacheEntry sample_response 2 0) = 2
   \<and> (1::real) \<le> expires_at (CacheEntry sample_response 2 0)
   \<and> fst (get_summary two_second_cache ''K'' 1) = Some sample_response
   \<and> (3::real) > expires_at (CacheEntry sample_response 2 0)
   \<and> fst (get_summary two_second_cache ''K'' 3) = None
   \<and> map_of (cache (snd (get_summary two_second_cache ''K'' 3))) ''K'' = None"
proof -
  have p: "py_int (total_seconds 2500000) = 2"
    by (simp add: py_int_def total_seconds_def)
  have e: "expires_at (CacheEntry sample_response 2 0) = 2" by (simp add: CacheEntry_def)
  have m: "map_of (cache two_second_cache) ''K'' = Some (CacheEntry sample_response 2 0)"
    unfolding two_second_cache_def
    using cache_entry_expiry[where n = 2 and mc = "MemoryCacheService 1000 3600"
        and k = "''K''" and v = sample_response and now = 0]
    by simp
  show ?thesis
    using cache_entry_expiry[where td = 2500000 and n = 2
        and mc = "MemoryCacheService 1000 3600" and k = "''K''" and v = sample_response
        and now = 0]
      cache_entry_expiry[where mc = two_second_cache and k = "''K''"
        and e = "CacheEntry sample_response 2 0" and t = 1 and v = sample_response
        and n = 2 and now = 0]
      cache_entry_expiry[where mc = two_second_cache and k = "''K''"
        and e = "CacheEntry sample_response 2 0" and t = 3 and v = sample_response
        and n = 2 and now = 0]
      p e m
    by (simp add: two_second_cache_def)
qed

text \<open>
  C7 as stated fails for a capacity that is not positive. \<open>MemoryCacheService\<close> accepts
  any integer as \<open>max_size\<close>; \<open>_evict_lru\<close> does nothing on an empty store, and
  \<open>set_summary\<close> then inserts unconditionally: a store built with \<open>max_size = 0\<close>
  holds one entry after one \<open>set_summary\<close>.
\<close>

theorem zero_capacity_counterexample:
  "max_size (MemoryCacheService 0 3600) = 0
   \<and> length (cache (run_ops (MemoryCacheService 0 3600)
                 [SetSummary ''K'' sample_response None 0])) = 1
   \<and> \<not> int (length (cache (run_ops (MemoryCacheService 0 3600)
                 [SetSummary ''K'' sample_response None 0])))
        \<le> max_size (MemoryCacheService 0 3600)"
  by code_simp

text \<open>
  C7, amended. For a store of capacity \<open>max_size = C\<close> with \<open>C \<ge> 1\<close>, after any
  sequence of \<open>get_summary\<close> and \<open>set_summary\<close> calls (from the empty store, or from any
  store with distinct keys and at most \<open>C\<close> entries) the store holds at most \<open>C\<close>
  entries. When \<open>set_summary\<close> writes a new key into a store at capacity, exactly the
  first key of the dictionary is removed and the new entry is appended. \<open>get_summary\<close>
  on a live key and \<open>set_summary\<close> both move the key to the end of the dictionary; with
  a clock that does not go backwards the dictionary is therefore ordered by time of last
  use, and its first key is the least recently used one.
\<close>

theorem lru_capacity_bound:
  "(0 < C \<longrightarrow> int (length (cache (run_ops (MemoryCacheService C dttl) ops))) \<le> C)
   \<and> (0 < max_size mc \<and> cache_inv mc \<longrightarrow>
        int (length (cache (run_ops mc ops))) \<le> max_size mc)
   \<and> (0 < max_size mc \<and> cache_inv mc \<and> \<not> od_contains (cache mc) k
        \<and> int (length (cache mc)) = max_size mc \<longrightarrow>
        cache (snd (set_summary mc k v ttl now))
          = tl (cache mc) @ [(k, CacheEntry v (ttl_seconds_of mc ttl) now)])
   \<and> (map_of (cache mc) k = Some e \<and> \<not> is_expired e now \<longrightarrow>
        fst (last (cache (snd (get_summary mc k now)))) = k)
   \<and> fst (last (cache (snd (set_summary mc k v ttl now)))) = k
   \<and> (sorted (map op_time ops) \<longrightarrow>
        sorted (map (\<lambda>kv. last_accessed (snd kv))
                  (cache (run_ops (MemoryCacheService C dttl) ops))))"
proof (intro conjI impI)
  assume "0 < C"
  then have "cache_inv (run_ops (MemoryCacheService C dttl) ops)
             \<and> max_size (run_ops (MemoryCacheService C dttl) ops) = max_size (MemoryCacheService C dttl)"
    by (intro run_ops_inv cache_inv_init) (simp_all add: MemoryCacheService_def)
  then show "int (length (cache (run_ops (MemoryCacheService C dttl) ops))) \<le> C"
    by (simp add: cache_inv_def MemoryCacheService_def)
next
  assume "0 < max_size mc \<and> cache_inv mc"
  then have "cache_inv (run_ops mc ops) \<and> max_size (run_ops mc ops) = max_size mc"
    by (intro run_ops_inv) simp_all
  then show "int (length (cache (run_ops mc ops))) \<le> max_size mc"
    by (simp add: cache_inv_def)
next
  assume "0 < max_size mc \<and> cache_inv mc \<and> \<not> od_contains (cache mc) k
        \<and> int (length (cache mc)) = max_size mc"
  then show "cache (snd (set_summary mc k v ttl now))
          = tl (cache mc) @ [(k, CacheEntry v (ttl_seconds_of mc ttl) now)]"
    by (intro set_summary_evicts_head) simp_all
next
  assume "map_of (cache mc) k = Some e \<and> \<not> is_expired e now"
  then show "fst (last (cache (snd (get_summary mc k now)))) = k"
    by (simp add: get_summary_hit)
next
  show "fst (last (cache (snd (set_summary mc k v ttl now)))) = k"
    by (simp add: set_summary_cache)
next
  assume "sorted (map op_time ops)"
  then show "sorted (map (\<lambda>kv. last_accessed (snd kv))
                  (cache (run_ops (MemoryCacheService C dttl) ops)))"
    by (rule run_ops_recency_init)
qed

theorem lru_capacity_bound_witness:
  "(0::int) < 2
   \<and> int (length (cache (run_ops (MemoryCacheService 2 3600) lru_ops))) \<le> 2
   \<and> 0 < max_size full_cache \<and> cache_inv full_cache
   \<and> int (length (cache (run_ops full_cache [SetSummary ''C'' sample_response None 4])))
        \<le> max_size full_cache
   \<and> \<not> od_contains (cache full_cache) ''C''
   \<and> int (length (cache full_cache)) = max_size full_cache
   \<and> map fst (cache full_cache) = [''B'', ''A'']
   \<and> map fst (cache (snd (set_summary full_cache ''C'' sample_response None 4))) = [''A'', ''C'']
   \<and> cache (snd (set_summary full_cache ''C'' sample_response None 4))
        = tl (cache full_cache) @ [(''C'', CacheEntry sample_response 3600 4)]
   \<and> map_of (cache full_cache) ''B'' = Some (CacheEntry sample_response 3600 2)
   \<and> \<not> is_expired (CacheEntry sample_response 3600 2) 5
   \<and> fst (last (cache (snd (get_summary full_cache ''B'' 5)))) = ''B''
   \<and> fst (last (cache (snd (set_summary full_cache ''C'' sample_response None 4)))) = ''C''
   \<and> sorted (map op_time lru_ops)
   \<and> sorted (map (\<lambda>kv. last_accessed (snd kv))
                (cache (run_ops (MemoryCacheService 2 3600) lru_ops)))"
proof -
  have ev: "0 < max_size full_cache" "cache_inv full_cache"
    "\<not> od_contains (cache full_cache) ''C''"
    "int (length (cache full_cache)) = max_size full_cache"
    "map fst (cache full_cache) = [''B'', ''A'']"
    "map fst (cache (snd (set_summary full_cache ''C'' sample_response None 4))) = [''A'', ''C'']"
    "map_of (cache full_cache) ''B'' = Some (CacheEntry sample_response 3600 2)"
    "\<not> is_expired (CacheEntry sample_response 3600 2) 5"
    "sorted (map op_time lru_ops)"
    "ttl_seconds_of full_cache None = 3600"
    by code_simp+
  show ?thesis
    using lru_capacity_bound[where C = 2 and dttl = 3600 and ops = lru_ops
        and mc = full_cache and k = "''C''" and v = sample_response and ttl = None and now = 4]
      lru_capacity_bound[where C = 2 and dttl = 3600
        and ops = "[SetSummary ''C'' sample_response None 4]"
        and mc = full_cache and k = "''B''" and e = "CacheEntry sample_response 3600 2"
        and v = sample_response and ttl = None and now = 5]
      ev
    by simp
qed


section \<open>Cache key: claim\<close>

text \<open>
  C8. The cache key is computed from \<open>text\<close>, \<open>lang\<close>, \<open>max_tokens\<close> and \<open>tone\<close>
  only: two requests that agree on these four fields have the same key, whatever their
  \<open>user_id\<close>, \<open>request_id\<close> and \<open>metadata\<close>.
\<close>

theorem cache_key_ignores_requester:
  "(req_text r1 = req_text r2 \<and> req_lang r1 = req_lang r2
      \<and> req_max_tokens r1 = req_max_tokens r2 \<and> req_tone r1 = req_tone r2
    \<longrightarrow> get_cache_key json_dumps_sorted sha256_hexdigest r1
        = get_cache_key json_dumps_sorted sha256_hexdigest r2)
   \<and> (req_text r1 = req_text r2 \<and> req_lang r1 = req_lang r2
      \<and> req_max_tokens r1 = req_max_tokens r2 \<and> req_tone r1 = req_tone r2
      \<and> t \<le> now + real_of_int (ttl_seconds_of mc ttl)
    \<longrightarrow> fst (get_summary
               (snd (set_summary mc (get_cache_key json_dumps_sorted sha256_hexdigest r1)
                       v ttl now))
               (get_cache_key json_dumps_sorted sha256_hexdigest r2) t) = Some v)"
proof (intro conjI impI)
  assume "req_text r1 = req_text r2 \<and> req_lang r1 = req_lang r2
      \<and> req_max_tokens r1 = req_max_tokens r2 \<and> req_tone r1 = req_tone r2"
  then show "get_cache_key json_dumps_sorted sha256_hexdigest r1
        = get_cache_key json_dumps_sorted sha256_hexdigest r2"
    by (simp add: get_cache_key_def)
next
  let ?k1 = "get_cache_key json_dumps_sorted sha256_hexdigest r1"
  let ?k2 = "get_cache_key json_dumps_sorted sha256_hexdigest r2"
  let ?e = "CacheEntry v (ttl_seconds_of mc ttl) now"
  assume h: "req_text r1 = req_text r2 \<and> req_lang r1 = req_lang r2
      \<and> req_max_tokens r1 = req_max_tokens r2 \<and> req_tone r1 = req_tone r2
      \<and> t \<le> now + real_of_int (ttl_seconds_of mc ttl)"
  then have k: "?k2 = ?k1" by (simp add: get_cache_key_def)
  have m: "map_of (cache (snd (set_summary mc ?k1 v ttl now))) ?k1 = Some ?e"
    by (rule map_of_after_set)
  have live: "\<not> is_expired ?e t" using h by (simp add: is_expired_def CacheEntry_def)
  have "fst (get_summary (snd (set_summary mc ?k1 v ttl now)) ?k1 t) = Some (entry_value ?e)"
    by (rule get_summary_hit(1)[OF m live])
  then show "fst (get_summary (snd (set_summary mc ?k1 v ttl now)) ?k2 t) = Some v"
    unfolding k by (simp add: CacheEntry_def)
qed

theorem cache_key_ignores_requester_witness:
  "req_text request_alice = req_text request_bob
   \<and> req_lang request_alice = req_lang request_bob
   \<and> req_max_tokens request_alice = req_max_tokens request_bob
   \<and> req_tone request_alice = req_tone request_bob
   \<and> req_user_id request_alice \<noteq> req_user_id request_bob
   \<and> req_request_id request_alice \<noteq> req_request_id request_bob
   \<and> req_metadata request_alice \<noteq> req_metadata request_bob
   \<and> get_cache_key toy_dumps toy_digest request_alice
       = get_cache_key toy_dumps toy_digest request_bob
   \<and> (20::real) \<le> 10 + real_of_int (ttl_seconds_of (MemoryCacheService 1000 3600) None)
   \<and> fst (get_summary
            (snd (set_summary (MemoryCacheService 1000 3600)
                    (get_cache_key toy_dumps toy_digest request_alice) sample_response None 10))
            (get_cache_key toy_dumps toy_digest request_bob) 20) = Some sample_response"
proof -
  have agree: "req_text request_alice = req_text request_bob
      \<and> req_lang request_alice = req_lang request_bob
      \<and> req_max_tokens request_alice = req_max_tokens request_bob
      \<and> req_tone request_alice = req_tone request_bob"
    and differ: "req_user_id request_alice \<noteq> req_user_id request_bob"
      "req_request_id request_alice \<noteq> req_request_id request_bob"
      "req_metadata request_alice \<noteq> req_metadata request_bob"
    by (simp_all add: request_alice_def request_bob_def)
  have live: "(20::real) \<le> 10 + real_of_int (ttl_seconds_of (MemoryCacheService 1000 3600) None)"
    by (simp add: ttl_seconds_of_def MemoryCacheService_def)
  note t = cache_key_ignores_requester
      [of request_alice request_bob toy_dumps toy_digest 20 10
          "MemoryCacheService 1000 3600" None sample_response]
  show ?thesis using t agree differ live by blast
qed


section \<open>TextRank: claim\<close>

text \<open>
  C9. The sentence budget is
  \<open>min(10, max(1, min(max_tokens // 20, total_sentences // 3)))\<close>. \<open>extract_sentences\<close>
  returns all sentences, in order, when there are no more than the budget; otherwise,
  when the scoring succeeds and \<open>argsort\<close> sorts the scores, it returns exactly
  \<open>num_sentences\<close> sentences, at strictly increasing positions of the text (a
  subsequence of the text's sentences, in their original order), each scoring at least
  as high as every sentence left out.
\<close>

theorem textrank_budget_and_original_order:
  "calculate_num_sentences st r =
     min 10 (max 1 (min (req_max_tokens r div 20) (int (length (st (req_text r))) div 3)))
   \<and> (int (length (st txt)) \<le> num \<longrightarrow>
        extract_sentences st textrank_scores argsort txt num = Inr (st txt))
   \<and> (num < int (length (st txt)) \<and> 0 \<le> num \<and> textrank_scores (st txt) = Inr scores
        \<and> length scores = length (st txt) \<and> is_argsort scores (argsort scores) \<longrightarrow>
        (let idxs = top_indices argsort scores num in
           extract_sentences st textrank_scores argsort txt num
             = Inr (map (\<lambda>i. st txt ! i) idxs)
           \<and> length idxs = nat num \<and> sorted idxs \<and> distinct idxs
           \<and> (\<forall>i\<in>set idxs. i < length (st txt))
           \<and> (\<forall>i\<in>set idxs. \<forall>j < length scores. j \<notin> set idxs \<longrightarrow> scores ! j \<le> scores ! i)
           \<and> map (\<lambda>i. st txt ! i) idxs = nths (st txt) (set idxs)
           \<and> subseq (map (\<lambda>i. st txt ! i) idxs) (st txt)))"
proof (intro conjI impI)
  show "calculate_num_sentences st r =
     min 10 (max 1 (min (req_max_tokens r div 20) (int (length (st (req_text r))) div 3)))"
    by (rule calculate_num_sentences_eq)
next
  assume "int (length (st txt)) \<le> num"
  then show "extract_sentences st textrank_scores argsort txt num = Inr (st txt)"
    by (simp add: extract_sentences_def)
next
  assume h: "num < int (length (st txt)) \<and> 0 \<le> num \<and> textrank_scores (st txt) = Inr scores
        \<and> length scores = length (st txt) \<and> is_argsort scores (argsort scores)"
  let ?idxs = "top_indices argsort scores num"
  have a: "is_argsort scores (argsort scores)" and b: "0 \<le> num"
    and c: "num \<le> int (length scores)"
    using h by simp_all
  note p = top_indices_props[where argsort = argsort and scores = scores and num = num, OF a b c]
  have inr: "\<forall>i\<in>set ?idxs. i < length (st txt)" using p(3) h by simp
  have nth: "map (\<lambda>i. st txt ! i) ?idxs = nths (st txt) (set ?idxs)"
    by (rule map_nth_sorted_indices[OF p(1) p(2) inr])
  have ex: "extract_sentences st textrank_scores argsort txt num
             = Inr (map (\<lambda>i. st txt ! i) ?idxs)"
    using h inr by (simp add: extract_sentences_def Let_def list_all_iff)
  have sub: "subseq (map (\<lambda>i. st txt ! i) ?idxs) (st txt)"
    unfolding nth subseq_conv_nths by blast
  show "let idxs = top_indices argsort scores num in
           extract_sentences st textrank_scores argsort txt num
             = Inr (map (\<lambda>i. st txt ! i) idxs)
           \<and> length idxs = nat num \<and> sorted idxs \<and> distinct idxs
           \<and> (\<forall>i\<in>set idxs. i < length (st txt))
           \<and> (\<forall>i\<in>set idxs. \<forall>j < length scores. j \<notin> set idxs \<longrightarrow> scores ! j \<le> scores ! i)
           \<and> map (\<lambda>i. st txt ! i) idxs = nths (st txt) (set idxs)
           \<and> subseq (map (\<lambda>i. st txt ! i) idxs) (st txt)"
    unfolding Let_def using ex p(4) p(1) p(2) inr p(5) nth sub by blast
qed

theorem textrank_budget_and_original_order_witness:
  "calculate_num_sentences four_sentences request_alice = 1
   \<and> int (length (four_sentences ''t'')) \<le> 4
   \<and> extract_sentences four_sentences four_scores four_argsort ''t'' 4 = Inr (four_sentences ''t'')
   \<and> (2 < int (length (four_sentences ''t'')) \<and> (0::int) \<le> 2
        \<and> four_scores (four_sentences ''t'') = Inr [1/10, 4/10, 2/10, 3/10]
        \<and> length [1/10, 4/10, 2/10, 3/10 :: real] = length (four_sentences ''t'')
        \<and> is_argsort [1/10, 4/10, 2/10, 3/10] (four_argsort [1/10, 4/10, 2/10, 3/10]))
   \<and> top_indices four_argsort [1/10, 4/10, 2/10, 3/10] 2 = [1, 3]
   \<and> extract_sentences four_sentences four_scores four_argsort ''t'' 2
        = Inr [''Beta two.'', ''Delta four.'']
   \<and> subseq [''Beta two.'', ''Delta four.''] (four_sentences ''t'')"
proof -
  note t4 = textrank_budget_and_original_order
      [of four_sentences request_alice "''t''" 4 four_scores four_argsort]
  note t2 = textrank_budget_and_original_order
      [of four_sentences request_alice "''t''" 2 four_scores four_argsort
          "[1/10, 4/10, 2/10, 3/10]"]
  have budget: "min 10 (max 1 (min (req_max_tokens request_alice div 20)
        (int (length (four_sentences (req_text request_alice))) div 3))) = 1"
    by code_simp
  have a: "calculate_num_sentences four_sentences request_alice = 1"
    using t4[THEN conjunct1] budget by simp
  have h4: "int (length (four_sentences ''t'')) \<le> 4" by code_simp
  have b: "extract_sentences four_sentences four_scores four_argsort ''t'' 4
             = Inr (four_sentences ''t'')"
    using t4[THEN conjunct2, THEN conjunct1] h4 by blast
  have h2: "2 < int (length (four_sentences ''t'')) \<and> (0::int) \<le> 2
        \<and> four_scores (four_sentences ''t'') = Inr [1/10, 4/10, 2/10, 3/10]
        \<and> length [1/10, 4/10, 2/10, 3/10 :: real] = length (four_sentences ''t'')
        \<and> is_argsort [1/10, 4/10, 2/10, 3/10] (four_argsort [1/10, 4/10, 2/10, 3/10])"
    by code_simp
  have idx: "top_indices four_argsort [1/10, 4/10, 2/10, 3/10] 2 = [1, 3]" by code_simp
  have sel: "map (\<lambda>i. four_sentences ''t'' ! i) [1, 3] = [''Beta two.'', ''Delta four.'']"
    by code_simp
  have c: "extract_sentences four_sentences four_scores four_argsort ''t'' 2
             = Inr [''Beta two.'', ''Delta four.'']
           \<and> subseq [''Beta two.'', ''Delta four.''] (four_sentences ''t'')"
    using t2[THEN conjunct2, THEN conjunct2, rule_format, OF h2]
    unfolding Let_def idx sel by blast
  show ?thesis using a h4 b h2 idx c by blast
qed


end
